theory Spec2Isabelle
  imports Main "HOL-Library.Monad_Syntax"
begin

section \<open>Store initializer: the bounded connection retry of \<open>main\<close>\<close>

text \<open>
  Lines 37 to 63 of \<open>main.go\<close>. The two calls that can fail, \<open>sql.Open\<close> and
  \<open>db.Ping\<close>, are answered by the environment: \<open>env i\<close> is what happens in
  iteration \<open>i\<close> of the loop. Everything the loop does to the outside world is
  appended to a trace. Delays are counted in seconds (\<open>retryDelay\<close> starts at
  \<open>2 * time.Second\<close>; five doublings stay far below the range of a Duration).
\<close>

datatype attempt = OpenFails | PingFails | Connects

datatype event = EvOpen | EvPing | EvSleep nat | EvClose | EvFatal

datatype outcome = Serving | Terminated

definition maxRetries :: nat where
  "maxRetries = 5"

function connect_loop ::
  "(nat \<Rightarrow> attempt) \<Rightarrow> nat \<Rightarrow> nat \<Rightarrow> bool \<Rightarrow> event list \<Rightarrow> bool \<times> event list" where
  "connect_loop env i retryDelay err tr =
     (if i < maxRetries then
        (case env i of
           OpenFails \<Rightarrow>
             connect_loop env (i + 1) (retryDelay * 2) True (tr @ [EvOpen, EvSleep retryDelay])
         | PingFails \<Rightarrow>
             connect_loop env (i + 1) (retryDelay * 2) True
               (tr @ [EvOpen, EvPing, EvSleep retryDelay, EvClose])
         | Connects \<Rightarrow> (False, tr @ [EvOpen, EvPing]))
      else (err, tr))"
  by pat_completeness auto
termination
  by (relation "measure (\<lambda>(env, i, retryDelay, err, tr). maxRetries - i)") auto

declare connect_loop.simps [simp del]

definition connect :: "(nat \<Rightarrow> attempt) \<Rightarrow> outcome \<times> event list" where
  "connect env =
     (case connect_loop env 0 2 False [] of
        (err, tr) \<Rightarrow> if err then (Terminated, tr @ [EvFatal]) else (Serving, tr))"

text \<open>
  The reading of the retry policy that the loop is compared with: the attempts that
  fail before the first success (at most \<open>maxRetries\<close> of them), what each of them
  does, and the delay that follows the \<open>j\<close>-th of them.
\<close>

definition failures :: "(nat \<Rightarrow> attempt) \<Rightarrow> attempt list" where
  "failures env = takeWhile (\<lambda>a. a \<noteq> Connects) (map env [0..<maxRetries])"

fun failed_attempt :: "attempt \<Rightarrow> nat \<Rightarrow> event list" where
  "failed_attempt OpenFails d = [EvOpen, EvSleep d]"
| "failed_attempt PingFails d = [EvOpen, EvPing, EvSleep d, EvClose]"
| "failed_attempt Connects d = [EvOpen, EvPing]"

fun retry_trace :: "attempt list \<Rightarrow> nat \<Rightarrow> event list" where
  "retry_trace [] d = []"
| "retry_trace (a # fs) d = failed_attempt a d @ retry_trace fs (d * 2)"

fun sleeps :: "event list \<Rightarrow> nat list" where
  "sleeps [] = []"
| "sleeps (EvSleep d # tr) = d # sleeps tr"
| "sleeps (e # tr) = sleeps tr"

definition opens :: "event list \<Rightarrow> nat" where
  "opens tr = length (filter (\<lambda>e. e = EvOpen) tr)"


section \<open>Calendar and \<open>time.Time\<close>\<close>

text \<open>
  The handlers use Go's \<open>time\<close> package. A \<open>time.Time\<close> is kept as an instant in whole
  seconds since 0001-01-01 00:00:00 UTC (the zero \<open>Time\<close>) together with the offset of
  its location in seconds east of UTC. Nanoseconds are left out: the only values whose
  sub-second part could matter are truncated to a day before use. Days are numbered
  from 0001-01-01 (day 0, a Monday).
\<close>

record Time =
  sec :: int
  offset :: int

definition secondsPerDay :: int where
  "secondsPerDay = 86400"

definition isLeap :: "int \<Rightarrow> bool" where
  "isLeap year = (year mod 4 = 0 \<and> (year mod 100 \<noteq> 0 \<or> year mod 400 = 0))"

definition daysBefore :: "nat \<Rightarrow> int" where
  "daysBefore m = [0, 31, 59, 90, 120, 151, 181, 212, 243, 273, 304, 334, 365] ! m"

definition daysIn :: "nat \<Rightarrow> int \<Rightarrow> int" where
  "daysIn m year = (if m = 2 \<and> isLeap year then 29 else daysBefore m - daysBefore (m - 1))"

definition daysSinceEpoch :: "int \<Rightarrow> int" where
  "daysSinceEpoch year =
     (let y = year - 1;
          n400 = y div 400; y1 = y - 400 * n400;
          n100 = y1 div 100; y2 = y1 - 100 * n100;
          n4 = y2 div 4; y3 = y2 - 4 * n4
      in 146097 * n400 + 36524 * n100 + 1461 * n4 + 365 * y3)"

text \<open>
  \<open>time.Date\<close> for fields that are already in range, and its inverse \<open>absDate\<close>,
  which \<open>Time.Day\<close> uses: both follow the arithmetic of the Go 1.23 library (the
  toolchain named in the build file), counted from year 1 instead of the library's
  internal epoch, which lies a multiple of 400 years earlier.
\<close>

definition civil_days :: "int \<Rightarrow> nat \<Rightarrow> int \<Rightarrow> int" where
  "civil_days year m day =
     daysSinceEpoch year + daysBefore (m - 1) + (if isLeap year \<and> 3 \<le> m then 1 else 0) + day - 1"

definition go_Date :: "int \<Rightarrow> nat \<Rightarrow> int \<Rightarrow> int \<Rightarrow> int \<Rightarrow> int \<Rightarrow> Time" where
  "go_Date year m day hour minute second =
     \<lparr>sec = civil_days year m day * secondsPerDay + hour * 3600 + minute * 60 + second,
      offset = 0\<rparr>"

definition year_yday :: "int \<Rightarrow> int \<times> int" where
  "year_yday d0 =
     (let n400 = d0 div 146097; d1 = d0 - 146097 * n400;
          c = d1 div 36524; n100 = c - c div 4; d2 = d1 - 36524 * n100;
          n4 = d2 div 1461; d3 = d2 - 1461 * n4;
          a = d3 div 365; n1 = a - a div 4; yday = d3 - 365 * n1
      in (400 * n400 + 100 * n100 + 4 * n4 + n1 + 1, yday))"

definition month_day :: "bool \<Rightarrow> int \<Rightarrow> nat \<times> int" where
  "month_day leap yday =
     (if leap \<and> yday = 31 + 29 - 1 then (2, 29)
      else
        let day = (if leap \<and> yday > 31 + 29 - 1 then yday - 1 else yday);
            m = nat (day div 31);
            e = daysBefore (m + 1)
        in if day \<ge> e then (m + 2, day - e + 1) else (m + 1, day - daysBefore m + 1))"

definition absDate :: "int \<Rightarrow> int \<times> nat \<times> int" where
  "absDate d0 =
     (case year_yday d0 of (year, yday) \<Rightarrow>
        (case month_day (isLeap year) yday of (m, day) \<Rightarrow> (year, m, day)))"

definition abs_days :: "Time \<Rightarrow> int" where
  "abs_days t = (sec t + offset t) div secondsPerDay"

definition Year :: "Time \<Rightarrow> int" where
  "Year t = fst (absDate (abs_days t))"

definition Month :: "Time \<Rightarrow> nat" where
  "Month t = fst (snd (absDate (abs_days t)))"

definition Day :: "Time \<Rightarrow> int" where
  "Day t = snd (snd (absDate (abs_days t)))"

definition Weekday :: "Time \<Rightarrow> int" where
  "Weekday t = (abs_days t + 1) mod 7"

definition zeroTime :: Time where
  "zeroTime = \<lparr>sec = 0, offset = 0\<rparr>"

definition IsZero :: "Time \<Rightarrow> bool" where
  "IsZero t = (sec t = 0)"

definition Truncate_day :: "Time \<Rightarrow> Time" where
  "Truncate_day t = t\<lparr>sec := sec t - sec t mod secondsPerDay\<rparr>"

definition AddDate_days :: "Time \<Rightarrow> int \<Rightarrow> Time" where
  "AddDate_days t days = t\<lparr>sec := sec t + days * secondsPerDay\<rparr>"

text \<open>
  \<open>time.Now()\<close>: the system clock, read as seconds since 1970-01-01 00:00:00 UTC, in
  the location \<open>Local\<close>. The service's image is a bare \<open>alpine\<close> with no zone
  database and no \<open>TZ\<close> setting, where \<open>Local\<close> is UTC.
\<close>

definition unixToInternal :: int where
  "unixToInternal = 62135596800"

definition time_Now :: "nat \<Rightarrow> Time" where
  "time_Now clock = \<lparr>sec = unixToInternal + int clock, offset = 0\<rparr>"

subsection \<open>Parsing dates\<close>

definition isDigit :: "char \<Rightarrow> bool" where
  "isDigit c = (48 \<le> (of_char c :: nat) \<and> (of_char c :: nat) \<le> 57)"

definition digits_val :: "string \<Rightarrow> int" where
  "digits_val s = foldl (\<lambda>x c. x * 10 + (int (of_char c) - 48)) 0 s"

definition parseUint :: "string \<Rightarrow> int \<Rightarrow> int \<Rightarrow> int option" where
  "parseUint s lo hi =
     (if list_all isDigit s \<and> lo \<le> digits_val s \<and> digits_val s \<le> hi
      then Some (digits_val s) else None)"

text \<open>
  \<open>time.Parse("2006-01-02", s)\<close>, the call of the lookup handler: a four-digit year,
  a two-digit month and a two-digit day of that month, separated by hyphens, and
  nothing else. The result is midnight UTC of that day.
\<close>

definition parse_date :: "string \<Rightarrow> Time option" where
  "parse_date s =
     (if length s \<noteq> 10 then None
      else do {
        year \<leftarrow> parseUint (take 4 s) 0 9999;
        m \<leftarrow> parseUint (take 2 (drop 5 s)) 1 12;
        day \<leftarrow> parseUint (take 2 (drop 8 s)) 1 (daysIn (nat m) year);
        if s ! 4 = CHR ''-'' \<and> s ! 7 = CHR ''-''
        then Some (go_Date year (nat m) day 0 0 0) else None
      })"

text \<open>
  \<open>Time.UnmarshalJSON\<close>, which \<open>encoding/json\<close> calls for the \<open>date\<close> member of a
  request body: the string has to be an RFC 3339 timestamp. The library first tries
  its \<open>parseRFC3339\<close>, which follows.
\<close>

definition parse_zone :: "string \<Rightarrow> int option" where
  "parse_zone s =
     (if s = ''Z'' then Some 0
      else if length s \<noteq> 6 then None
      else do {
        hr \<leftarrow> parseUint (take 2 (drop 1 s)) 0 23;
        mm \<leftarrow> parseUint (take 2 (drop 4 s)) 0 59;
        if (s ! 0 = CHR ''-'' \<or> s ! 0 = CHR ''+'') \<and> s ! 3 = CHR '':''
        then Some (if s ! 0 = CHR ''-'' then - ((hr * 60 + mm) * 60) else (hr * 60 + mm) * 60)
        else None
      })"

definition skip_fraction :: "string \<Rightarrow> string" where
  "skip_fraction s =
     (if length s \<ge> 2 \<and> s ! 0 = CHR ''.'' \<and> isDigit (s ! 1)
      then dropWhile isDigit (drop 1 s) else s)"

definition parseRFC3339 :: "string \<Rightarrow> Time option" where
  "parseRFC3339 s =
     (if length s < 19 then None
      else do {
        year \<leftarrow> parseUint (take 4 s) 0 9999;
        m \<leftarrow> parseUint (take 2 (drop 5 s)) 1 12;
        day \<leftarrow> parseUint (take 2 (drop 8 s)) 1 (daysIn (nat m) year);
        hour \<leftarrow> parseUint (take 2 (drop 11 s)) 0 23;
        minute \<leftarrow> parseUint (take 2 (drop 14 s)) 0 59;
        second \<leftarrow> parseUint (take 2 (drop 17 s)) 0 59;
        if s ! 4 = CHR ''-'' \<and> s ! 7 = CHR ''-'' \<and> s ! 10 = CHR ''T''
           \<and> s ! 13 = CHR '':'' \<and> s ! 16 = CHR '':''
        then do {
          zoneOffset \<leftarrow> parse_zone (skip_fraction (drop 19 s));
          Some \<lparr>sec = sec (go_Date year (nat m) day hour minute second) - zoneOffset,
                offset = zoneOffset\<rparr>
        }
        else None
      })"


text \<open>
  When \<open>parseRFC3339\<close> refuses the string, the library falls back to
  \<open>time.Parse\<close> with the layout \<open>2006-01-02T15:04:05Z07:00\<close> and takes its result as
  it is. That parse reads the same date and the letter T, then an hour of one or two
  digits, two-digit minutes and seconds, a fraction introduced by a period or a
  comma, and \<open>Z\<close> or a signed zone whose hour may be up to 24 and whose minute may be
  up to 60.
\<close>

definition digit :: "char \<Rightarrow> int" where
  "digit c = int (of_char c) - 48"

definition getnum :: "string \<Rightarrow> bool \<Rightarrow> (int \<times> string) option" where
  "getnum s fixed =
     (case s of
        [] \<Rightarrow> None
      | a # r \<Rightarrow>
          if \<not> isDigit a then None
          else
            (case r of
               [] \<Rightarrow> if fixed then None else Some (digit a, r)
             | b # r' \<Rightarrow>
                 if isDigit b then Some (digit a * 10 + digit b, r')
                 else if fixed then None
                 else Some (digit a, r)))"

definition skip_literal :: "char \<Rightarrow> string \<Rightarrow> string option" where
  "skip_literal c s = (case s of [] \<Rightarrow> None | x # r \<Rightarrow> if x = c then Some r else None)"

definition commaOrPeriod :: "char \<Rightarrow> bool" where
  "commaOrPeriod c = (c = CHR ''.'' \<or> c = CHR '','')"

definition skip_fraction_layout :: "string \<Rightarrow> string" where
  "skip_fraction_layout s =
     (if length s \<ge> 2 \<and> commaOrPeriod (s ! 0) \<and> isDigit (s ! 1)
      then dropWhile isDigit (drop 1 s) else s)"

definition parse_zone_layout :: "string \<Rightarrow> int option" where
  "parse_zone_layout s =
     (if s = ''Z'' then Some 0
      else if length s \<noteq> 6 \<or> s ! 0 = CHR ''Z'' \<or> s ! 3 \<noteq> CHR '':'' then None
      else do {
        (hr, r1) \<leftarrow> getnum (take 2 (drop 1 s)) True;
        (mm, r2) \<leftarrow> getnum (take 2 (drop 4 s)) True;
        if hr \<le> 24 \<and> mm \<le> 60 \<and> (s ! 0 = CHR ''-'' \<or> s ! 0 = CHR ''+'')
        then Some (if s ! 0 = CHR ''-'' then - ((hr * 60 + mm) * 60) else (hr * 60 + mm) * 60)
        else None
      })"

definition parse_layout_RFC3339 :: "string \<Rightarrow> Time option" where
  "parse_layout_RFC3339 s =
     (if length s < 11 then None
      else do {
        year \<leftarrow> parseUint (take 4 s) 0 9999;
        m \<leftarrow> parseUint (take 2 (drop 5 s)) 1 12;
        day \<leftarrow> parseUint (take 2 (drop 8 s)) 1 (daysIn (nat m) year);
        if s ! 4 = CHR ''-'' \<and> s ! 7 = CHR ''-'' \<and> s ! 10 = CHR ''T''
        then do {
          (hour, r1) \<leftarrow> getnum (drop 11 s) False;
          r2 \<leftarrow> skip_literal (CHR '':'') r1;
          (minute, r3) \<leftarrow> getnum r2 True;
          r4 \<leftarrow> skip_literal (CHR '':'') r3;
          (second, r5) \<leftarrow> getnum r4 True;
          zoneOffset \<leftarrow> parse_zone_layout (skip_fraction_layout r5);
          if hour < 24 \<and> minute < 60 \<and> second < 60
          then Some \<lparr>sec = sec (go_Date year (nat m) day hour minute second) - zoneOffset,
                     offset = zoneOffset\<rparr>
          else None
        }
        else None
      })"

definition UnmarshalJSON_Time :: "string \<Rightarrow> Time option" where
  "UnmarshalJSON_Time s =
     (case parseRFC3339 s of
        Some t \<Rightarrow> Some t
      | None \<Rightarrow> parse_layout_RFC3339 s)"


section \<open>Request bodies\<close>

text \<open>
  A request body is the JSON text that \<open>json.NewDecoder(r.Body).Decode\<close> reads,
  given here after lexing: \<open>None\<close> stands for a body that is not JSON at all,
  \<open>JFraction\<close> for a number literal with a fraction or an exponent.
\<close>

datatype json =
    JNull
  | JBool bool
  | JNumber int
  | JFraction
  | JString string
  | JArray "json list"
  | JObject "(string \<times> json) list"

record TokenUsage =
  ID :: int
  Date :: Time
  Model :: string
  TotalTokens :: int

datatype failure =
    InvalidPayload
  | InvalidDate
  | ErrNoRows
  | StorageFailure

text \<open>
  Decoding into the struct, as \<open>encoding/json\<close> does it: members are taken in order,
  a member name selects the field whose tag it equals after case folding, \<open>null\<close>
  leaves a field as it is, unknown members are skipped, and a member of the wrong kind
  makes the whole decode fail. Folding maps the ASCII letters of either case to one
  case and, like the library, the Kelvin sign (U+212A, bytes E2 84 AA) to \<open>k\<close> and
  the long s (U+017F, bytes C5 BF) to \<open>s\<close>. A Go \<open>int\<close> holds 64 bits.
\<close>

definition lower :: "char \<Rightarrow> char" where
  "lower c =
     (if 65 \<le> (of_char c :: nat) \<and> (of_char c :: nat) \<le> 90
      then char_of ((of_char c :: nat) + 32) else c)"

fun foldName :: "string \<Rightarrow> string" where
  "foldName (a # b # c # cs) =
     (if a = CHR 0xE2 \<and> b = CHR 0x84 \<and> c = CHR 0xAA then CHR ''k'' # foldName cs
      else if a = CHR 0xC5 \<and> b = CHR 0xBF then CHR ''s'' # foldName (c # cs)
      else lower a # foldName (b # c # cs))"
| "foldName [a, b] =
     (if a = CHR 0xC5 \<and> b = CHR 0xBF then [CHR ''s''] else [lower a, lower b])"
| "foldName [a] = [lower a]"
| "foldName [] = []"

definition fits_int :: "int \<Rightarrow> bool" where
  "fits_int n = (- (2 ^ 63) \<le> n \<and> n < 2 ^ 63)"

definition decode_int :: "json \<Rightarrow> int \<Rightarrow> int option" where
  "decode_int v old =
     (case v of JNull \<Rightarrow> Some old
      | JNumber n \<Rightarrow> if fits_int n then Some n else None
      | _ \<Rightarrow> None)"

definition decode_string :: "json \<Rightarrow> string \<Rightarrow> string option" where
  "decode_string v old =
     (case v of JNull \<Rightarrow> Some old | JString x \<Rightarrow> Some x | _ \<Rightarrow> None)"

definition decode_time :: "json \<Rightarrow> Time \<Rightarrow> Time option" where
  "decode_time v old =
     (case v of JNull \<Rightarrow> Some old | JString x \<Rightarrow> UnmarshalJSON_Time x | _ \<Rightarrow> None)"

definition decode_member :: "string \<Rightarrow> json \<Rightarrow> TokenUsage \<Rightarrow> TokenUsage option" where
  "decode_member k v usage =
     (let name = foldName k in
      if name = ''id'' then map_option (\<lambda>n. usage\<lparr>ID := n\<rparr>) (decode_int v (ID usage))
      else if name = ''date'' then
        map_option (\<lambda>t. usage\<lparr>Date := t\<rparr>) (decode_time v (Date usage))
      else if name = ''model'' then
        map_option (\<lambda>m. usage\<lparr>Model := m\<rparr>) (decode_string v (Model usage))
      else if name = ''total_tokens'' then
        map_option (\<lambda>n. usage\<lparr>TotalTokens := n\<rparr>) (decode_int v (TotalTokens usage))
      else Some usage)"

fun decode_members :: "(string \<times> json) list \<Rightarrow> TokenUsage \<Rightarrow> TokenUsage option" where
  "decode_members [] usage = Some usage"
| "decode_members ((k, v) # kvs) usage =
     (case decode_member k v usage of
        None \<Rightarrow> None
      | Some usage' \<Rightarrow> decode_members kvs usage')"

definition zeroUsage :: TokenUsage where
  "zeroUsage = \<lparr>ID = 0, Date = zeroTime, Model = [], TotalTokens = 0\<rparr>"

definition Decode :: "json option \<Rightarrow> failure + TokenUsage" where
  "Decode body =
     (case body of
        None \<Rightarrow> Inl InvalidPayload
      | Some JNull \<Rightarrow> Inr zeroUsage
      | Some (JObject kvs) \<Rightarrow>
          (case decode_members kvs zeroUsage of
             None \<Rightarrow> Inl InvalidPayload
           | Some usage \<Rightarrow> Inr usage)
      | Some _ \<Rightarrow> Inl InvalidPayload)"

section \<open>The store\<close>

text \<open>
  The table \<open>token_usage\<close> behind the connection handle \<open>db\<close>: its rows in storage
  order and the next value of the \<open>SERIAL\<close> sequence of \<open>id\<close>. A \<open>DATE\<close> column holds a
  day number. Whether a statement reaches the database is not in the program's
  hands: \<open>faults\<close> lists, for the statements still to come, whether each one fails, and
  \<open>calls\<close> counts the statements issued so far.
\<close>

record row =
  col_id :: int
  col_date :: int
  col_model :: string
  col_total_tokens :: int

record store =
  table :: "row list"
  serial :: int
  calls :: nat
  faults :: "bool list"

definition db_call :: "store \<Rightarrow> bool \<times> store" where
  "db_call s =
     (case faults s of
        [] \<Rightarrow> (False, s\<lparr>calls := calls s + 1\<rparr>)
      | f # fs \<Rightarrow> (f, s\<lparr>calls := calls s + 1, faults := fs\<rparr>))"

text \<open>
  A \<open>time.Time\<close> argument compared with or stored in the \<open>DATE\<close> column is sent as the
  timestamp on the value's own clock, of which the database keeps the day.
\<close>

definition pg_date :: "Time \<Rightarrow> int" where
  "pg_date t = abs_days t"

definition matches :: "int \<Rightarrow> string \<Rightarrow> row \<Rightarrow> bool" where
  "matches d m r = (col_date r = d \<and> col_model r = m)"

text \<open>\<open>SELECT id FROM token_usage WHERE date = $1 AND model = $2\<close>, scanned by \<open>QueryRow\<close>.\<close>

definition select_id :: "Time \<Rightarrow> string \<Rightarrow> store \<Rightarrow> (failure + int) \<times> store" where
  "select_id date model s =
     (case db_call s of
        (True, s') \<Rightarrow> (Inl StorageFailure, s')
      | (False, s') \<Rightarrow>
          (case filter (matches (pg_date date) model) (table s') of
             [] \<Rightarrow> (Inl ErrNoRows, s')
           | r # _ \<Rightarrow> (Inr (col_id r), s')))"

text \<open>\<open>INSERT INTO token_usage (date, model, total_tokens) VALUES ($1, $2, $3)\<close>.\<close>

definition insert_usage :: "Time \<Rightarrow> string \<Rightarrow> int \<Rightarrow> store \<Rightarrow> (failure + unit) \<times> store" where
  "insert_usage date model totalTokens s =
     (case db_call s of
        (True, s') \<Rightarrow> (Inl StorageFailure, s')
      | (False, s') \<Rightarrow>
          (Inr (),
           s'\<lparr>table := table s' @
                 [\<lparr>col_id = serial s', col_date = pg_date date, col_model = model,
                   col_total_tokens = totalTokens\<rparr>],
               serial := serial s' + 1\<rparr>))"

text \<open>\<open>UPDATE token_usage SET total_tokens = $1 WHERE id = $2\<close>.\<close>

definition update_total :: "int \<Rightarrow> int \<Rightarrow> store \<Rightarrow> (failure + unit) \<times> store" where
  "update_total totalTokens existingID s =
     (case db_call s of
        (True, s') \<Rightarrow> (Inl StorageFailure, s')
      | (False, s') \<Rightarrow>
          (Inr (),
           s'\<lparr>table :=
                 map (\<lambda>r. if col_id r = existingID then r\<lparr>col_total_tokens := totalTokens\<rparr> else r)
                   (table s')\<rparr>))"

text \<open>\<open>SELECT total_tokens FROM token_usage WHERE date = $1 AND model = $2\<close>.\<close>

definition select_total :: "Time \<Rightarrow> string \<Rightarrow> store \<Rightarrow> (failure + int) \<times> store" where
  "select_total date model s =
     (case db_call s of
        (True, s') \<Rightarrow> (Inl StorageFailure, s')
      | (False, s') \<Rightarrow>
          (case filter (matches (pg_date date) model) (table s') of
             [] \<Rightarrow> (Inl ErrNoRows, s')
           | r # _ \<Rightarrow> (Inr (col_total_tokens r), s')))"

text \<open>
  \<open>SELECT COALESCE(SUM(total_tokens), 0) FROM token_usage WHERE model = $1 AND date >= $2\<close>
  and the same without the condition on the date.
\<close>

definition select_sum_since :: "string \<Rightarrow> Time \<Rightarrow> store \<Rightarrow> (failure + int) \<times> store" where
  "select_sum_since model startDate s =
     (case db_call s of
        (True, s') \<Rightarrow> (Inl StorageFailure, s')
      | (False, s') \<Rightarrow>
          (Inr (sum_list (map col_total_tokens
                  (filter (\<lambda>r. col_model r = model \<and> pg_date startDate \<le> col_date r) (table s')))),
           s'))"

definition select_sum :: "string \<Rightarrow> store \<Rightarrow> (failure + int) \<times> store" where
  "select_sum model s =
     (case db_call s of
        (True, s') \<Rightarrow> (Inl StorageFailure, s')
      | (False, s') \<Rightarrow>
          (Inr (sum_list (map col_total_tokens (filter (\<lambda>r. col_model r = model) (table s')))),
           s'))"

section \<open>Responses and handlers\<close>

text \<open>
  A response is the status code and the JSON object written by \<open>respondJSON\<close>, with
  its members in the order in which Go encodes a map (sorted by name). \<open>Cause e\<close> is
  the text of \<open>err.Error()\<close>, which is not spelled out.
\<close>

datatype jval = Str string | Num int | Cause failure

record response =
  status :: nat
  body :: "(string \<times> jval) list"

definition respondJSON :: "nat \<Rightarrow> (string \<times> jval) list \<Rightarrow> response" where
  "respondJSON code data = \<lparr>status = code, body = data\<rparr>"

definition respondError :: "nat \<Rightarrow> string \<Rightarrow> failure \<Rightarrow> response" where
  "respondError code message err =
     respondJSON code [(''error'', Cause err), (''message'', Str message)]"

definition recordTokenUsage :: "json option \<Rightarrow> store \<Rightarrow> response \<times> store" where
  "recordTokenUsage reqBody s =
     (case Decode reqBody of
        Inl err \<Rightarrow> (respondError 400 ''Invalid request payload'' err, s)
      | Inr usage \<Rightarrow>
          (case select_id (Date usage) (Model usage) s of
             (Inl ErrNoRows, s1) \<Rightarrow>
               (case insert_usage (Date usage) (Model usage) (TotalTokens usage) s1 of
                  (Inl err, s2) \<Rightarrow> (respondError 500 ''Failed to insert token usage'' err, s2)
                | (Inr _, s2) \<Rightarrow>
                    (respondJSON 201 [(''message'', Str ''Token usage recorded successfully'')], s2))
           | (Inl err, s1) \<Rightarrow> (respondError 500 ''Database query error'' err, s1)
           | (Inr existingID, s1) \<Rightarrow>
               (case update_total (TotalTokens usage) existingID s1 of
                  (Inl err, s2) \<Rightarrow> (respondError 500 ''Failed to update token usage'' err, s2)
                | (Inr _, s2) \<Rightarrow>
                    (respondJSON 200 [(''message'', Str ''Token usage updated successfully'')], s2))))"

definition getTokenUsageByDateAndModel :: "string \<Rightarrow> string \<Rightarrow> store \<Rightarrow> response \<times> store" where
  "getTokenUsageByDateAndModel dateStr model s =
     (case parse_date dateStr of
        None \<Rightarrow> (respondError 400 ''Invalid date format'' InvalidDate, s)
      | Some date \<Rightarrow>
          (case select_total date model s of
             (Inl ErrNoRows, s1) \<Rightarrow>
               (respondJSON 200
                  [(''message'', Str ''No token usage data found for this date and model''),
                   (''status'', Num 0)], s1)
           | (Inl err, s1) \<Rightarrow> (respondError 500 ''Database query error'' err, s1)
           | (Inr totalTokens, s1) \<Rightarrow>
               (respondJSON 200 [(''status'', Num 1), (''total_tokens'', Num totalTokens)], s1)))"

definition quoted :: "string \<Rightarrow> string" where
  "quoted w = CHR 0x27 # w @ [CHR 0x27]"

definition invalid_period_message :: string where
  "invalid_period_message =
     ''Invalid period. Use '' @ quoted ''week'' @ '', '' @ quoted ''month'' @ '' or ''
       @ quoted ''lifetime''"

text \<open>The \<open>switch\<close> on \<open>period\<close>; \<open>None\<close> is its \<open>default\<close> branch.\<close>

definition startDate :: "Time \<Rightarrow> string \<Rightarrow> Time option" where
  "startDate today period =
     (if period = ''week'' then Some (AddDate_days today (- Weekday today))
      else if period = ''month'' then Some (AddDate_days today (- Day today + 1))
      else if period = ''lifetime'' then Some zeroTime
      else None)"

definition getTokenUsageByPeriod :: "nat \<Rightarrow> string \<Rightarrow> string \<Rightarrow> store \<Rightarrow> response \<times> store" where
  "getTokenUsageByPeriod clock model period s =
     (let today = Truncate_day (time_Now clock) in
      case startDate today period of
        None \<Rightarrow> (respondJSON 400 [(''message'', Str invalid_period_message)], s)
      | Some start \<Rightarrow>
          (case (if \<not> IsZero start then select_sum_since model start s else select_sum model s) of
             (Inl err, s1) \<Rightarrow> (respondError 500 ''Database query error'' err, s1)
           | (Inr totalTokens, s1) \<Rightarrow>
               if totalTokens = 0
               then (respondJSON 404 [(''message'', Str ''No token usage data found for this model'')], s1)
               else (respondJSON 200 [(''total_tokens'', Num totalTokens)], s1)))"

section \<open>Routing\<close>

text \<open>
  The four routes registered in \<open>main\<close>, in their order. The router tries them in
  that order and serves the first whose path template and method both match; a
  variable of a template matches one non-empty path segment. A request that no route
  takes is answered by the router itself. Before it tries any route, the router
  (whose \<open>SkipClean\<close> option \<open>main\<close> leaves unset) compares the path with its
  cleaned form and answers a path that differs with a 301 redirect to the cleaned one.
\<close>

datatype seg = Lit string | Var string

datatype handler =
    H_recordTokenUsage
  | H_getTokenUsageAll
  | H_getTokenUsageByDateAndModel
  | H_getTokenUsageByPeriod

record route =
  template :: "seg list"
  verb :: string
  target :: handler

definition routes :: "route list" where
  "routes =
     [\<lparr>template = [Lit ''token_usage''], verb = ''POST'', target = H_recordTokenUsage\<rparr>,
      \<lparr>template = [Lit ''token_usage''], verb = ''GET'', target = H_getTokenUsageAll\<rparr>,
      \<lparr>template = [Lit ''token_usage'', Var ''date'', Var ''model''], verb = ''GET'',
        target = H_getTokenUsageByDateAndModel\<rparr>,
      \<lparr>template = [Lit ''token_usage'', Var ''model'', Var ''period''], verb = ''GET'',
        target = H_getTokenUsageByPeriod\<rparr>]"

fun split_on :: "char \<Rightarrow> string \<Rightarrow> string list" where
  "split_on c [] = [[]]"
| "split_on c (x # xs) =
     (if x = c then [] # split_on c xs
      else (case split_on c xs of
              w # ws \<Rightarrow> (x # w) # ws
            | [] \<Rightarrow> [[x]]))"

definition path_segments :: "string \<Rightarrow> string list option" where
  "path_segments path =
     (case path of
        [] \<Rightarrow> None
      | x # xs \<Rightarrow> if x = CHR ''/'' then Some (split_on (CHR ''/'') xs) else None)"

fun match_template :: "seg list \<Rightarrow> string list \<Rightarrow> (string \<times> string) list option" where
  "match_template [] [] = Some []"
| "match_template (Lit l # ps) (x # xs) = (if x = l then match_template ps xs else None)"
| "match_template (Var v # ps) (x # xs) =
     (if x = [] then None else map_option (\<lambda>vars. (v, x) # vars) (match_template ps xs))"
| "match_template _ _ = None"

datatype dispatched =
    Routed handler "(string \<times> string) list"
  | Redirected string
  | Unrouted

fun first_match :: "route list \<Rightarrow> string \<Rightarrow> string list \<Rightarrow> dispatched" where
  "first_match [] method segs = Unrouted"
| "first_match (r # rs) method segs =
     (case match_template (template r) segs of
        Some vars \<Rightarrow> if verb r = method then Routed (target r) vars else first_match rs method segs
      | None \<Rightarrow> first_match rs method segs)"

text \<open>
  \<open>cleanPath\<close> of the router: \<open>path.Clean\<close> of the path, rooted first if it is not,
  with the trailing slash put back. \<open>path.Clean\<close> of a rooted path drops empty
  elements and \<open>.\<close> elements, drops a \<open>..\<close> element together with the element before
  it, and drops a \<open>..\<close> element that has nothing before it.
\<close>

fun clean_elements :: "string list \<Rightarrow> string list \<Rightarrow> string list" where
  "clean_elements [] kept = rev kept"
| "clean_elements (x # xs) kept =
     (if x = [] \<or> x = ''.'' then clean_elements xs kept
      else if x = ''..'' then
        clean_elements xs (case kept of [] \<Rightarrow> [] | _ # earlier \<Rightarrow> earlier)
      else clean_elements xs (x # kept))"

definition path_Clean :: "string \<Rightarrow> string" where
  "path_Clean rooted =
     (case clean_elements (split_on (CHR ''/'') (tl rooted)) [] of
        [] \<Rightarrow> ''/''
      | elements \<Rightarrow> concat (map (\<lambda>x. CHR ''/'' # x) elements))"

definition cleanPath :: "string \<Rightarrow> string" where
  "cleanPath p =
     (if p = [] then ''/''
      else
        let p' = (if hd p \<noteq> CHR ''/'' then CHR ''/'' # p else p);
            np = path_Clean p'
        in if last p' = CHR ''/'' \<and> np \<noteq> ''/'' then np @ ''/'' else np)"

definition dispatch :: "string \<Rightarrow> string \<Rightarrow> dispatched" where
  "dispatch method path =
     (if cleanPath path \<noteq> path then Redirected (cleanPath path)
      else
        (case path_segments path of
           None \<Rightarrow> Unrouted
         | Some segs \<Rightarrow> first_match routes method segs))"

section \<open>Notions used to state the properties\<close>

text \<open>No statement still to come is scheduled to fail.\<close>

definition healthy :: "store \<Rightarrow> bool" where
  "healthy s = (True \<notin> set (faults s))"

text \<open>At most one row for each pair of date and model.\<close>

definition unique_keys :: "row list \<Rightarrow> bool" where
  "unique_keys rows = distinct (map (\<lambda>r. (col_date r, col_model r)) rows)"

text \<open>A sequence of reports, served one after the other.\<close>

definition record_all :: "json option list \<Rightarrow> store \<Rightarrow> store" where
  "record_all bodies s = fold (\<lambda>b s'. snd (recordTokenUsage b s')) bodies s"

text \<open>What a variable of a path template can match.\<close>

definition segment :: "string \<Rightarrow> bool" where
  "segment x = (x \<noteq> [] \<and> CHR ''/'' \<notin> set x)"

text \<open>The two path elements that cleaning removes.\<close>

definition dot_segment :: "string \<Rightarrow> bool" where
  "dot_segment x = (x = ''.'' \<or> x = ''..'')"


text \<open>
  The sum that the period aggregate reads from the store: the rows of the model, from
  the start date of the period on when that date is not the zero \<open>Time\<close>.
\<close>

definition computed_sum :: "nat \<Rightarrow> string \<Rightarrow> string \<Rightarrow> row list \<Rightarrow> int" where
  "computed_sum clock model period rows =
     (case startDate (Truncate_day (time_Now clock)) period of
        None \<Rightarrow> 0
      | Some start \<Rightarrow>
          sum_list (map col_total_tokens
            (filter (\<lambda>r. col_model r = model \<and> (IsZero start \<or> pg_date start \<le> col_date r)) rows)))"

text \<open>
  The current day, the most recent Sunday on or before it, and the first day of its
  calendar month (\<open>time.Date\<close> of the current year and month with day 1), as day
  numbers; and the rows of a model dated on or after a given day.
\<close>

definition current_day :: "nat \<Rightarrow> int" where
  "current_day clock = abs_days (time_Now clock)"

definition week_start :: "nat \<Rightarrow> int" where
  "week_start clock = current_day clock - (current_day clock + 1) mod 7"

definition month_start :: "nat \<Rightarrow> int" where
  "month_start clock = civil_days (Year (time_Now clock)) (Month (time_Now clock)) 1"

definition covered_since :: "string \<Rightarrow> int \<Rightarrow> row \<Rightarrow> bool" where
  "covered_since model start r = (col_model r = model \<and> start \<le> col_date r)"

definition sum_since :: "string \<Rightarrow> int \<Rightarrow> row list \<Rightarrow> int" where
  "sum_since model start rows =
     sum_list (map col_total_tokens (filter (covered_since model start) rows))"

definition aggregate_answer :: "int \<Rightarrow> response" where
  "aggregate_answer n =
     (if n = 0
      then respondJSON 404 [(''message'', Str ''No token usage data found for this model'')]
      else respondJSON 200 [(''total_tokens'', Num n)])"

text \<open>
  The same sum cut off at the current day, which is how the specification words the
  \<open>week\<close> and \<open>month\<close> aggregates (``through now'').
\<close>

definition sum_through_now :: "string \<Rightarrow> int \<Rightarrow> int \<Rightarrow> row list \<Rightarrow> int" where
  "sum_through_now model start now rows =
     sum_list (map col_total_tokens
       (filter (\<lambda>r. col_model r = model \<and> start \<le> col_date r \<and> col_date r \<le> now) rows))"

subsection \<open>Sample data\<close>

text \<open>
  The clock at 2024-01-10 00:00:00 UTC, a Wednesday (day 738894); the Sunday before
  is 2024-01-07 (day 738891) and the first of the month is day 738885.
\<close>

definition sample_clock :: nat where
  "sample_clock = 1704844800"


definition sample_store :: store where
  "sample_store =
     \<lparr>table =
        [\<lparr>col_id = 1, col_date = 738863, col_model = ''gpt-4'', col_total_tokens = 100\<rparr>,
         \<lparr>col_id = 2, col_date = 738887, col_model = ''gpt-4'', col_total_tokens = 7\<rparr>,
         \<lparr>col_id = 3, col_date = 738892, col_model = ''gpt-4'', col_total_tokens = 11\<rparr>,
         \<lparr>col_id = 4, col_date = 738892, col_model = ''claude'', col_total_tokens = 13\<rparr>,
         \<lparr>col_id = 5, col_date = 738894, col_model = ''idle'', col_total_tokens = 0\<rparr>],
      serial = 6, calls = 0, faults = []\<rparr>"

definition future_store :: store where
  "future_store =
     \<lparr>table =
        [\<lparr>col_id = 1, col_date = 738904, col_model = ''gpt-4'', col_total_tokens = 5\<rparr>],
      serial = 2, calls = 0, faults = []\<rparr>"

definition sample_report :: "string \<Rightarrow> int \<Rightarrow> json option" where
  "sample_report date n =
     Some (JObject [(''date'', JString date), (''model'', JString ''gpt-4''),
                    (''total_tokens'', JNumber n)])"

section \<open>The connection retry\<close>

lemma connect_loop_eq:
  "i \<le> maxRetries \<Longrightarrow>
   connect_loop env i d err tr =
     (let fs = takeWhile (\<lambda>a. a \<noteq> Connects) (map env [i..<maxRetries]) in
      if length fs < maxRetries - i then (False, tr @ retry_trace fs d @ [EvOpen, EvPing])
      else (err \<or> i < maxRetries, tr @ retry_trace fs d))"
proof (induction env i d err tr rule: connect_loop.induct)
  case (1 env i d err tr)
  show ?case
  proof (cases "i < maxRetries")
    case False
    then show ?thesis using "1.prems" by (simp add: connect_loop.simps)
  next
    case True
    then have upt: "[i..<maxRetries] = i # [Suc i..<maxRetries]"
      by (simp add: upt_conv_Cons)
    show ?thesis
    proof (cases "env i")
      case OpenFails
      with True "1.IH"(1) [OF True OpenFails] show ?thesis
        by (subst connect_loop.simps) (auto simp: upt Let_def)
    next
      case PingFails
      with True "1.IH"(2) [OF True PingFails] show ?thesis
        by (subst connect_loop.simps) (auto simp: upt Let_def)
    next
      case Connects
      with True show ?thesis
        by (subst connect_loop.simps) (simp add: upt)
    qed
  qed
qed

lemma length_failures: "length (failures env) \<le> maxRetries"
  unfolding failures_def
  by (rule order_trans [OF length_takeWhile_le]) simp

lemma failures_no_success: "Connects \<notin> set (failures env)"
  unfolding failures_def by (auto dest: set_takeWhileD)

lemma connect_eq:
  "connect env =
     (if length (failures env) < maxRetries
      then (Serving, retry_trace (failures env) 2 @ [EvOpen, EvPing])
      else (Terminated, retry_trace (failures env) 2 @ [EvFatal]))"
  using length_failures [of env]
  by (simp add: connect_def connect_loop_eq failures_def Let_def maxRetries_def)

lemma sleeps_append: "sleeps (xs @ ys) = sleeps xs @ sleeps ys"
  by (induction xs rule: sleeps.induct) auto

lemma sleeps_retry_trace:
  "Connects \<notin> set fs \<Longrightarrow> sleeps (retry_trace fs d) = map (\<lambda>j. d * 2 ^ j) [0..<length fs]"
proof (induction fs arbitrary: d)
  case Nil
  then show ?case by simp
next
  case (Cons a fs)
  have "map (\<lambda>j. d * 2 ^ j) [0..<length (a # fs)] = d # map (\<lambda>j. (d * 2) * 2 ^ j) [0..<length fs]"
    by (simp add: upt_conv_Cons map_Suc_upt [symmetric] del: upt_Suc)
  with Cons show ?case by (cases a) (auto simp: sleeps_append)
qed

lemma opens_append: "opens (xs @ ys) = opens xs + opens ys"
  by (simp add: opens_def)

lemma opens_failed_attempt: "opens (failed_attempt a d) = 1"
  by (cases a) (simp_all add: opens_def)

lemma opens_retry_trace: "opens (retry_trace fs d) = length fs"
  by (induction fs arbitrary: d) (simp_all add: opens_append opens_failed_attempt, simp add: opens_def)

lemma upt5: "[0..<5] = [0, 1, 2, 3, 4]"
  by (simp add: upt_rec)

lemma backoff_delays:
  assumes "n \<le> 5"
  shows "map (\<lambda>j. 2 * 2 ^ j) [0..<n] = take n [2, 4, 8, 16, 32 :: nat]"
proof -
  from assms have "n = 0 \<or> n = 1 \<or> n = 2 \<or> n = 3 \<or> n = 4 \<or> n = 5" by arith
  then show ?thesis by (auto simp: upt_rec)
qed

text \<open>
  Claim C10. The initializer makes at most five attempts (\<open>maxRetries\<close> is 5). The
  attempts that fail are those before the first success among the five; each is
  followed by a sleep, of 2, 4, 8, 16 and 32 seconds in this order, and, when a handle
  had been opened (the ping failed), by closing that handle before the next attempt.
  It stops at the first success, and when all five attempts fail the process ends with
  a fatal error. Four runs are spelled out: five failed pings, five failed opens,
  success at the fifth attempt and success at the first.
\<close>

theorem connect_retry_policy:
  "maxRetries = 5
   \<and> failures env = takeWhile (\<lambda>a. a \<noteq> Connects) [env 0, env 1, env 2, env 3, env 4]
   \<and> connect env =
     (if length (failures env) < 5
      then (Serving, retry_trace (failures env) 2 @ [EvOpen, EvPing])
      else (Terminated, retry_trace (failures env) 2 @ [EvFatal]))
   \<and> length (failures env) \<le> 5
   \<and> Connects \<notin> set (failures env)
   \<and> opens (snd (connect env)) = (if length (failures env) < 5 then length (failures env) + 1 else 5)
   \<and> opens (snd (connect env)) \<le> 5
   \<and> sleeps (snd (connect env)) = map (\<lambda>j. 2 * 2 ^ j) [0..<length (failures env)]
   \<and> sleeps (snd (connect env)) = take (length (failures env)) [2, 4, 8, 16, 32]
   \<and> connect (\<lambda>i. PingFails) =
       (Terminated,
        [EvOpen, EvPing, EvSleep 2, EvClose, EvOpen, EvPing, EvSleep 4, EvClose,
         EvOpen, EvPing, EvSleep 8, EvClose, EvOpen, EvPing, EvSleep 16, EvClose,
         EvOpen, EvPing, EvSleep 32, EvClose, EvFatal])
   \<and> connect (\<lambda>i. OpenFails) =
       (Terminated,
        [EvOpen, EvSleep 2, EvOpen, EvSleep 4, EvOpen, EvSleep 8, EvOpen, EvSleep 16,
         EvOpen, EvSleep 32, EvFatal])
   \<and> connect (\<lambda>i. if i < 4 then PingFails else Connects) =
       (Serving,
        [EvOpen, EvPing, EvSleep 2, EvClose, EvOpen, EvPing, EvSleep 4, EvClose,
         EvOpen, EvPing, EvSleep 8, EvClose, EvOpen, EvPing, EvSleep 16, EvClose,
         EvOpen, EvPing])
   \<and> connect (\<lambda>i. Connects) = (Serving, [EvOpen, EvPing])"
proof -
  have f: "failures env = takeWhile (\<lambda>a. a \<noteq> Connects) [env 0, env 1, env 2, env 3, env 4]"
    by (simp add: failures_def maxRetries_def upt5)
  have l: "length (failures env) \<le> 5"
    using length_failures [of env] by (simp add: maxRetries_def)
  have c: "connect env =
     (if length (failures env) < 5
      then (Serving, retry_trace (failures env) 2 @ [EvOpen, EvPing])
      else (Terminated, retry_trace (failures env) 2 @ [EvFatal]))"
    by (simp add: connect_eq maxRetries_def)
  have s: "sleeps (snd (connect env)) = map (\<lambda>j. 2 * 2 ^ j) [0..<length (failures env)]"
    using failures_no_success [of env]
    by (simp add: c sleeps_append sleeps_retry_trace)
  have o: "opens (snd (connect env)) =
      (if length (failures env) < 5 then length (failures env) + 1 else 5)"
    using l by (simp add: c opens_append opens_retry_trace, simp add: opens_def)
  have runs: "connect (\<lambda>i. PingFails) =
       (Terminated,
        [EvOpen, EvPing, EvSleep 2, EvClose, EvOpen, EvPing, EvSleep 4, EvClose,
         EvOpen, EvPing, EvSleep 8, EvClose, EvOpen, EvPing, EvSleep 16, EvClose,
         EvOpen, EvPing, EvSleep 32, EvClose, EvFatal])"
    "connect (\<lambda>i. OpenFails) =
       (Terminated,
        [EvOpen, EvSleep 2, EvOpen, EvSleep 4, EvOpen, EvSleep 8, EvOpen, EvSleep 16,
         EvOpen, EvSleep 32, EvFatal])"
    "connect (\<lambda>i. if i < 4 then PingFails else Connects) =
       (Serving,
        [EvOpen, EvPing, EvSleep 2, EvClose, EvOpen, EvPing, EvSleep 4, EvClose,
         EvOpen, EvPing, EvSleep 8, EvClose, EvOpen, EvPing, EvSleep 16, EvClose,
         EvOpen, EvPing])"
    "connect (\<lambda>i. Connects) = (Serving, [EvOpen, EvPing])"
    by (simp_all add: connect_eq failures_def maxRetries_def upt5)
  from l o have o5: "opens (snd (connect env)) \<le> 5" by simp
  from s l have s5: "sleeps (snd (connect env)) = take (length (failures env)) [2, 4, 8, 16, 32]"
    by (simp only: backoff_delays)
  show ?thesis
    using f l c s o o5 s5 runs failures_no_success [of env]
    by (simp only: maxRetries_def simp_thms)
qed

theorem connect_retry_policy_witness:
  "connect (\<lambda>i. if i = 0 then OpenFails else if i = 1 then PingFails else Connects) =
     (Serving, [EvOpen, EvSleep 2, EvOpen, EvPing, EvSleep 4, EvClose, EvOpen, EvPing])
   \<and> opens (snd (connect (\<lambda>i. if i = 0 then OpenFails else if i = 1 then PingFails else Connects)))
       = 3
   \<and> sleeps (snd (connect (\<lambda>i. if i = 0 then OpenFails else if i = 1 then PingFails else Connects)))
       = [2, 4]"
proof -
  let ?e = "\<lambda>i::nat. if i = 0 then OpenFails else if i = 1 then PingFails else Connects"
  note th = connect_retry_policy [of ?e]
  from th have f: "failures ?e = [OpenFails, PingFails]" by simp
  from th have "connect ?e =
     (if length (failures ?e) < 5
      then (Serving, retry_trace (failures ?e) 2 @ [EvOpen, EvPing])
      else (Terminated, retry_trace (failures ?e) 2 @ [EvFatal]))"
    by (elim conjE)
  then have c: "connect ?e =
     (Serving, [EvOpen, EvSleep 2, EvOpen, EvPing, EvSleep 4, EvClose, EvOpen, EvPing])"
    by (simp add: f)
  then show ?thesis by (simp add: opens_def)
qed

section \<open>Storage calls\<close>

lemma db_call_healthy:
  assumes "healthy s"
  obtains s' where "db_call s = (False, s')" "table s' = table s" "serial s' = serial s"
    "healthy s'" "calls s' = calls s + 1"
  using assms by (cases "faults s") (auto simp: db_call_def healthy_def)

lemma db_call_table: "table (snd (db_call s)) = table s"
  by (simp add: db_call_def split: list.splits)

lemma filter_hd_find: "(case filter P xs of [] \<Rightarrow> None | r # _ \<Rightarrow> Some r) = find P xs"
  by (induction xs) auto

lemma select_total_healthy:
  assumes "healthy s"
  shows "fst (select_total date model s) =
           (case find (matches (pg_date date) model) (table s) of
              None \<Rightarrow> Inl ErrNoRows
            | Some r \<Rightarrow> Inr (col_total_tokens r))"
proof -
  from assms obtain s' where "db_call s = (False, s')" "table s' = table s"
    by (rule db_call_healthy)
  then show ?thesis
    by (simp add: select_total_def filter_hd_find [symmetric] split: list.splits)
qed

lemma select_sum_since_healthy:
  assumes "healthy s"
  shows "fst (select_sum_since model start s) =
     Inr (sum_list (map col_total_tokens
            (filter (\<lambda>r. col_model r = model \<and> pg_date start \<le> col_date r) (table s))))"
proof -
  from assms obtain s' where "db_call s = (False, s')" "table s' = table s"
    by (rule db_call_healthy)
  then show ?thesis by (simp add: select_sum_since_def)
qed

lemma select_sum_healthy:
  assumes "healthy s"
  shows "fst (select_sum model s) =
     Inr (sum_list (map col_total_tokens (filter (\<lambda>r. col_model r = model) (table s))))"
proof -
  from assms obtain s' where "db_call s = (False, s')" "table s' = table s"
    by (rule db_call_healthy)
  then show ?thesis by (simp add: select_sum_def)
qed

lemma select_id_table: "table (snd (select_id date model s)) = table s"
  using db_call_table [of s]
  by (cases "db_call s") (auto simp: select_id_def split: bool.splits list.splits)

lemma select_id_no_rows:
  "fst (select_id date model s) = Inl ErrNoRows \<Longrightarrow>
   \<forall>r \<in> set (table s). \<not> matches (pg_date date) model r"
  using db_call_table [of s]
  by (cases "db_call s")
    (auto simp: select_id_def filter_empty_conv split: bool.splits list.splits)

lemma insert_usage_table:
  "table (snd (insert_usage date model n s)) = table s \<or>
   table (snd (insert_usage date model n s)) =
     table s @ [\<lparr>col_id = serial (snd (db_call s)), col_date = pg_date date, col_model = model,
                 col_total_tokens = n\<rparr>]"
  using db_call_table [of s]
  by (cases "db_call s") (auto simp: insert_usage_def split: bool.splits)

lemma update_total_keys:
  "map (\<lambda>r. (col_date r, col_model r)) (table (snd (update_total n i s))) =
   map (\<lambda>r. (col_date r, col_model r)) (table s)"
proof -
  have "map (\<lambda>r. (col_date r, col_model r))
          (map (\<lambda>r. if col_id r = i then r\<lparr>col_total_tokens := n\<rparr> else r) xs) =
        map (\<lambda>r. (col_date r, col_model r)) xs" for xs
    by (induction xs) auto
  then show ?thesis
    using db_call_table [of s]
    by (cases "db_call s") (auto simp: update_total_def split: bool.splits)
qed

section \<open>Evaluating the sample data\<close>

lemmas calendar_defs =
  isLeap_def daysBefore_def daysIn_def daysSinceEpoch_def civil_days_def go_Date_def
  secondsPerDay_def abs_days_def pg_date_def

lemmas parse_defs =
  parse_date_def parseRFC3339_def parse_zone_def skip_fraction_def parseUint_def isDigit_def
  digits_val_def

lemmas time_defs =
  time_Now_def unixToInternal_def Truncate_day_def AddDate_days_def Weekday_def Day_def Year_def
  Month_def absDate_def year_yday_def month_day_def IsZero_def

lemma sample_current_day: "abs_days (time_Now sample_clock) = 738894"
  by (simp add: sample_clock_def time_Now_def unixToInternal_def abs_days_def secondsPerDay_def)

lemma sample_year_yday: "year_yday 738894 = (2024, 9)"
  unfolding year_yday_def Let_def by simp

lemma sample_month_day: "month_day True 9 = (1, 10)"
  unfolding month_day_def Let_def by (simp add: daysBefore_def)

lemma sample_absDate: "absDate 738894 = (2024, 1, 10)"
  by (simp add: absDate_def sample_year_yday sample_month_day isLeap_def)

lemma sample_days:
  "current_day sample_clock = 738894"
  "week_start sample_clock = 738891"
  "month_start sample_clock = 738885"
  by (simp_all add: current_day_def week_start_def month_start_def Year_def Month_def
      sample_current_day sample_absDate civil_days_def daysSinceEpoch_def daysBefore_def
      isLeap_def)

lemma parse_sample_date:
  "parse_date ''2024-01-10'' = Some \<lparr>sec = 63840441600, offset = 0\<rparr>"
  by (simp add: parse_defs calendar_defs)

lemma parse_sample_timestamp:
  "parseRFC3339 ''2024-01-10T00:00:00Z'' = Some \<lparr>sec = 63840441600, offset = 0\<rparr>"
  by (simp add: parse_defs calendar_defs)

lemma parse_sample_evening:
  "parseRFC3339 ''2024-01-10T21:30:00.5-05:00'' = Some \<lparr>sec = 63840537000, offset = - 18000\<rparr>"
  by (simp add: parse_defs calendar_defs)

lemma parse_sample_monday:
  "parseRFC3339 ''2024-01-08T09:00:00Z'' = Some \<lparr>sec = 63840301200, offset = 0\<rparr>"
  by (simp add: parse_defs calendar_defs)

section \<open>The period aggregate\<close>

lemma period_response:
  assumes "healthy s" and "startDate (Truncate_day (time_Now clock)) period \<noteq> None"
  shows "fst (getTokenUsageByPeriod clock model period s) =
     (if computed_sum clock model period (table s) = 0
      then respondJSON 404 [(''message'', Str ''No token usage data found for this model'')]
      else respondJSON 200 [(''total_tokens'', Num (computed_sum clock model period (table s)))])"
proof -
  from assms(2) obtain start where st: "startDate (Truncate_day (time_Now clock)) period = Some start"
    by auto
  show ?thesis
  proof (cases "IsZero start")
    case True
    with st select_sum_healthy [OF assms(1), of model] show ?thesis
      by (cases "select_sum model s")
        (simp add: getTokenUsageByPeriod_def computed_sum_def Let_def)
  next
    case False
    with st select_sum_since_healthy [OF assms(1), of model start] show ?thesis
      by (cases "select_sum_since model start s")
        (simp add: getTokenUsageByPeriod_def computed_sum_def Let_def)
  qed
qed

text \<open>
  Claim C9. A period other than \<open>week\<close>, \<open>month\<close> and \<open>lifetime\<close> is answered with
  status 400 and the message \<^verbatim>\<open>Invalid period. Use 'week', 'month' or 'lifetime'\<close>,
  which lists these three (its closing quote is appended as \<open>CHR 0x27\<close> below), and
  the store is left as it was: no statement is issued.
\<close>

theorem invalid_period:
  assumes "period \<noteq> ''week''" and "period \<noteq> ''month''" and "period \<noteq> ''lifetime''"
  shows "getTokenUsageByPeriod clock model period s =
           (\<lparr>status = 400,
             body = [(''message'',
                      Str (''Invalid period. Use 'week', 'month' or 'lifetime'' @ [CHR 0x27]))]\<rparr>,
            s)"
  using assms
  by (simp add: getTokenUsageByPeriod_def startDate_def Let_def respondJSON_def
      invalid_period_message_def quoted_def)

theorem invalid_period_witness:
  "''year'' \<noteq> ''week'' \<and> ''year'' \<noteq> ''month'' \<and> ''year'' \<noteq> ''lifetime'' \<and>
   getTokenUsageByPeriod sample_clock ''gpt-4'' ''year'' sample_store =
     (\<lparr>status = 400,
       body = [(''message'',
                Str (''Invalid period. Use 'week', 'month' or 'lifetime'' @ [CHR 0x27]))]\<rparr>,
      sample_store)
   \<and> calls (snd (getTokenUsageByPeriod sample_clock ''gpt-4'' ''year'' sample_store)) = 0"
  using invalid_period [of "''year''" sample_clock "''gpt-4''" sample_store]
  by (simp add: sample_store_def)

subsection \<open>Start dates\<close>

lemma capped_quotient:
  fixes c :: int
  assumes "0 \<le> c" and "c \<le> 4"
  shows "c - c div 4 = (if c = 4 then 3 else c)"
proof -
  from assms have "c = 0 \<or> c = 1 \<or> c = 2 \<or> c = 3 \<or> c = 4" by arith
  then show ?thesis by auto
qed

lemma div_unique_int:
  fixes k q r :: int
  assumes "0 \<le> r" and "r < k"
  shows "(k * q + r) div k = q"
proof -
  from assms have "k \<noteq> 0" and "r div k = 0" by simp_all
  then show ?thesis by simp
qed

lemma split_div_int:
  fixes x k :: int
  assumes "0 < k"
  obtains r where "x = k * (x div k) + r" "0 \<le> r" "r < k"
proof
  show "x = k * (x div k) + x mod k" by simp
  show "0 \<le> x mod k" using assms by simp
  show "x mod k < k" using assms by simp
qed

lemma year_yday_sound:
  assumes "year_yday n = (y, yd)"
  shows "daysSinceEpoch y + yd = n" and "0 \<le> yd" and "yd \<le> 365"
proof -
  define n400 where "n400 = n div 146097"
  define d1 where "d1 = n - 146097 * n400"
  define c where "c = d1 div 36524"
  define n100 where "n100 = c - c div 4"
  define d2 where "d2 = d1 - 36524 * n100"
  define n4 where "n4 = d2 div 1461"
  define d3 where "d3 = d2 - 1461 * n4"
  define a where "a = d3 div 365"
  define n1 where "n1 = a - a div 4"
  have "year_yday n = (400 * n400 + 100 * n100 + 4 * n4 + n1 + 1, d3 - 365 * n1)"
    unfolding year_yday_def Let_def n400_def d1_def c_def n100_def d2_def n4_def d3_def a_def
      n1_def
    by (rule refl)
  with assms have y: "y = 400 * n400 + 100 * n100 + 4 * n4 + n1 + 1"
    and yd: "yd = d3 - 365 * n1"
    by simp_all
  obtain r0 where r0: "n = 146097 * n400 + r0" "0 \<le> r0" "r0 < 146097"
    unfolding n400_def by (rule split_div_int [of 146097 n]) simp
  then have d1: "0 \<le> d1" "d1 < 146097" by (simp_all add: d1_def)
  obtain r1 where r1: "d1 = 36524 * c + r1" "0 \<le> r1" "r1 < 36524"
    unfolding c_def by (rule split_div_int [of 36524 d1]) simp
  with d1 have c: "0 \<le> c" "c \<le> 4" by linarith+
  then have n100: "n100 = (if c = 4 then 3 else c)"
    unfolding n100_def by (rule capped_quotient)
  have d2: "0 \<le> d2" "d2 \<le> 36524"
    using r1 d1 c by (simp_all add: d2_def n100)
  obtain r2 where r2: "d2 = 1461 * n4 + r2" "0 \<le> r2" "r2 < 1461"
    unfolding n4_def by (rule split_div_int [of 1461 d2]) simp
  with d2 have n4: "0 \<le> n4" "n4 \<le> 24" by linarith+
  from r2 have d3: "0 \<le> d3" "d3 < 1461" by (simp_all add: d3_def)
  obtain r3 where r3: "d3 = 365 * a + r3" "0 \<le> r3" "r3 < 365"
    unfolding a_def by (rule split_div_int [of 365 d3]) simp
  with d3 have a: "0 \<le> a" "a \<le> 4" by linarith+
  then have n1: "n1 = (if a = 4 then 3 else a)"
    unfolding n1_def by (rule capped_quotient)
  show "0 \<le> yd" "yd \<le> 365"
    using r3 d3 a by (simp_all add: yd n1)
  have b1: "0 \<le> n1" "n1 \<le> 3" using n1 a by auto
  have b100: "0 \<le> n100" "n100 \<le> 3" using n100 c by auto
  have "y - 1 = 400 * n400 + (100 * n100 + 4 * n4 + n1)" by (simp add: y)
  moreover have "(400 * n400 + (100 * n100 + 4 * n4 + n1)) div 400 = n400"
    using b1 b100 n4 by (intro div_unique_int) linarith+
  ultimately have q400: "(y - 1) div 400 = n400" by simp
  have "y - 1 - 400 * n400 = 100 * n100 + (4 * n4 + n1)" by (simp add: y)
  moreover have "(100 * n100 + (4 * n4 + n1)) div 100 = n100"
    using b1 n4 by (intro div_unique_int) linarith+
  ultimately have q100: "(y - 1 - 400 * n400) div 100 = n100" by simp
  have "y - 1 - 400 * n400 - 100 * n100 = 4 * n4 + n1" by (simp add: y)
  moreover have "(4 * n4 + n1) div 4 = n4"
    using b1 by (intro div_unique_int) linarith+
  ultimately have q4: "(y - 1 - 400 * n400 - 100 * n100) div 4 = n4" by simp
  have "daysSinceEpoch y = 146097 * n400 + 36524 * n100 + 1461 * n4 + 365 * n1"
    unfolding daysSinceEpoch_def Let_def q400 q100 q4 by (simp add: y)
  then show "daysSinceEpoch y + yd = n"
    by (simp add: yd d3_def d2_def d1_def)
qed

lemma month_estimate:
  assumes "0 \<le> day" and "day \<le> 365"
    and "(let m = nat (day div 31); e = daysBefore (m + 1)
          in if day \<ge> e then (m + 2, day - e + 1) else (m + 1, day - daysBefore m + 1)) = (mm, d)"
  shows "daysBefore (mm - 1) + d - 1 = day \<and> 1 \<le> d \<and> d \<le> day + 1
         \<and> (59 \<le> day \<longrightarrow> 3 \<le> mm) \<and> (day < 59 \<longrightarrow> mm \<le> 2)"
proof -
  define k where "k = nat (day div 31)"
  have kb: "int k * 31 \<le> day" "day < int k * 31 + 31" "k \<le> 11"
    using assms(1,2) unfolding k_def by auto
  from kb(3) have "k = 0 \<or> k = 1 \<or> k = 2 \<or> k = 3 \<or> k = 4 \<or> k = 5 \<or> k = 6 \<or> k = 7
    \<or> k = 8 \<or> k = 9 \<or> k = 10 \<or> k = 11"
    by arith
  then consider "k = 0" | "k = 1" | "k = 2" | "k = 3" | "k = 4" | "k = 5" | "k = 6" | "k = 7"
    | "k = 8" | "k = 9" | "k = 10" | "k = 11"
    by blast
  then show ?thesis
  proof cases
    case 1 with kb assms(3) show ?thesis
      unfolding k_def [symmetric] by (auto simp: daysBefore_def Let_def split: if_splits)
  next
    case 2 with kb assms(3) show ?thesis
      unfolding k_def [symmetric] by (auto simp: daysBefore_def Let_def split: if_splits)
  next
    case 3 with kb assms(3) show ?thesis
      unfolding k_def [symmetric] by (auto simp: daysBefore_def Let_def split: if_splits)
  next
    case 4 with kb assms(3) show ?thesis
      unfolding k_def [symmetric] by (auto simp: daysBefore_def Let_def split: if_splits)
  next
    case 5 with kb assms(3) show ?thesis
      unfolding k_def [symmetric] by (auto simp: daysBefore_def Let_def split: if_splits)
  next
    case 6 with kb assms(3) show ?thesis
      unfolding k_def [symmetric] by (auto simp: daysBefore_def Let_def split: if_splits)
  next
    case 7 with kb assms(3) show ?thesis
      unfolding k_def [symmetric] by (auto simp: daysBefore_def Let_def split: if_splits)
  next
    case 8 with kb assms(3) show ?thesis
      unfolding k_def [symmetric] by (auto simp: daysBefore_def Let_def split: if_splits)
  next
    case 9 with kb assms(3) show ?thesis
      unfolding k_def [symmetric] by (auto simp: daysBefore_def Let_def split: if_splits)
  next
    case 10 with kb assms(3) show ?thesis
      unfolding k_def [symmetric] by (auto simp: daysBefore_def Let_def split: if_splits)
  next
    case 11 with kb assms(3) show ?thesis
      unfolding k_def [symmetric] by (auto simp: daysBefore_def Let_def split: if_splits)
  next
    case 12 with kb assms(3) show ?thesis
      unfolding k_def [symmetric] by (auto simp: daysBefore_def Let_def split: if_splits)
  qed
qed

lemma month_day_sound:
  assumes "month_day leap yd = (m, d)" and "0 \<le> yd" and "yd \<le> 365"
  shows "daysBefore (m - 1) + (if leap \<and> 3 \<le> m then 1 else 0) + d - 1 = yd"
    and "1 \<le> d" and "d \<le> yd + 1"
proof -
  have "daysBefore (m - 1) + (if leap \<and> 3 \<le> m then 1 else 0) + d - 1 = yd \<and> 1 \<le> d
        \<and> d \<le> yd + 1"
  proof (cases "leap \<and> yd = 59")
    case True
    with assms(1) show ?thesis by (auto simp: month_day_def daysBefore_def)
  next
    case False
    define day where "day = (if leap \<and> yd > 59 then yd - 1 else yd)"
    have rng: "0 \<le> day" "day \<le> 365" using assms(2,3) by (auto simp: day_def)
    have md: "month_day leap yd =
        (let m = nat (day div 31); e = daysBefore (m + 1)
          in if day \<ge> e then (m + 2, day - e + 1) else (m + 1, day - daysBefore m + 1))"
      unfolding month_day_def day_def using False by (auto simp: Let_def)
    have "(let m = nat (day div 31); e = daysBefore (m + 1)
          in if day \<ge> e then (m + 2, day - e + 1) else (m + 1, day - daysBefore m + 1)) = (m, d)"
      unfolding md [symmetric] by (rule assms(1))
    from month_estimate [OF rng this] False show ?thesis
      by (auto simp: day_def split: if_splits)
  qed
  then show "daysBefore (m - 1) + (if leap \<and> 3 \<le> m then 1 else 0) + d - 1 = yd"
    and "1 \<le> d" and "d \<le> yd + 1"
    by simp_all
qed

lemma abs_days_Truncate_Now:
  "abs_days (Truncate_day (time_Now clock)) = current_day clock"
  "sec (Truncate_day (time_Now clock)) = current_day clock * secondsPerDay"
  "offset (Truncate_day (time_Now clock)) = 0"
  by (simp_all add: abs_days_def Truncate_day_def time_Now_def current_day_def secondsPerDay_def
      minus_mod_eq_div_mult)

lemma current_day_lower: "719162 \<le> current_day clock"
proof -
  have "(62135596800 + int clock) div 86400 \<ge> 62135596800 div 86400"
    by (intro zdiv_mono1) simp_all
  then show ?thesis
    by (simp add: current_day_def abs_days_def time_Now_def unixToInternal_def secondsPerDay_def)
qed

lemma Weekday_today:
  "Weekday (Truncate_day (time_Now clock)) = (current_day clock + 1) mod 7"
  by (simp add: Weekday_def abs_days_Truncate_Now)

lemma Day_today: "Day (Truncate_day (time_Now clock)) = Day (time_Now clock)"
  by (simp add: Day_def abs_days_Truncate_Now current_day_def)

lemma absDate_sound:
  assumes "absDate n = (y, m, d)"
  shows "civil_days y m d = n" and "1 \<le> d" and "d \<le> 366"
proof -
  obtain yd where yy: "year_yday n = (y, yd)" and md: "month_day (isLeap y) yd = (m, d)"
    using assms by (auto simp: absDate_def split: prod.splits)
  note ys = year_yday_sound [OF yy]
  note ms = month_day_sound [OF md ys(2,3)]
  from ys(1) ms(1) show "civil_days y m d = n"
    by (simp add: civil_days_def)
  show "1 \<le> d" by (rule ms(2))
  from ms(3) ys(3) show "d \<le> 366" by simp
qed

lemma start_week:
  "startDate (Truncate_day (time_Now clock)) ''week'' = Some start \<Longrightarrow>
   pg_date start = week_start clock \<and> \<not> IsZero start"
  using current_day_lower [of clock]
  by (auto simp: startDate_def AddDate_days_def pg_date_def abs_days_def abs_days_Truncate_Now
      Weekday_today week_start_def IsZero_def secondsPerDay_def)


lemma start_month:
  assumes "startDate (Truncate_day (time_Now clock)) ''month'' = Some start"
  shows "pg_date start = month_start clock" and "\<not> IsZero start"
    and "month_start clock \<le> current_day clock"
    and "month_start clock = current_day clock - (Day (time_Now clock) - 1)"
proof -
  obtain y m d where ad: "absDate (current_day clock) = (y, m, d)"
    by (cases "absDate (current_day clock)")
  note snd = absDate_sound [OF ad]
  have ymd: "Year (time_Now clock) = y" "Month (time_Now clock) = m" "Day (time_Now clock) = d"
    using ad by (simp_all add: Year_def Month_def Day_def current_day_def)
  have ms: "month_start clock = current_day clock - (d - 1)"
    using snd(1) by (simp add: month_start_def ymd civil_days_def)
  have st: "start = AddDate_days (Truncate_day (time_Now clock)) (- d + 1)"
    using assms by (simp add: startDate_def Day_today ymd)
  define k where "k = current_day clock - d + 1"
  have "sec start = k * 86400" and "offset start = 0"
    unfolding st k_def
    by (simp_all add: AddDate_days_def abs_days_Truncate_Now secondsPerDay_def algebra_simps)
  then have "pg_date start = k" and "IsZero start \<longleftrightarrow> k = 0"
    by (simp_all add: pg_date_def abs_days_def IsZero_def secondsPerDay_def)
  then have pg: "pg_date start = current_day clock - d + 1" and
    z: "IsZero start \<longleftrightarrow> current_day clock - d + 1 = 0"
    by (simp_all add: k_def)
  show "pg_date start = month_start clock" using pg ms by simp
  show "\<not> IsZero start" using z snd(3) current_day_lower [of clock] by simp
  show "month_start clock \<le> current_day clock" using ms snd(2) by simp
  show "month_start clock = current_day clock - (Day (time_Now clock) - 1)"
    using ms ymd by simp
qed

lemma computed_sum_week:
  "computed_sum clock model ''week'' rows = sum_since model (week_start clock) rows"
proof -
  obtain start where st: "startDate (Truncate_day (time_Now clock)) ''week'' = Some start"
    by (simp add: startDate_def)
  from start_week [OF st] st show ?thesis
    by (simp add: computed_sum_def sum_since_def covered_since_def [abs_def])
qed

lemma computed_sum_month:
  "computed_sum clock model ''month'' rows = sum_since model (month_start clock) rows"
proof -
  obtain start where st: "startDate (Truncate_day (time_Now clock)) ''month'' = Some start"
    by (simp add: startDate_def)
  from start_month(1,2) [OF st] st show ?thesis
    by (simp add: computed_sum_def sum_since_def covered_since_def [abs_def])
qed

lemma sample_sums:
  "computed_sum sample_clock ''gpt-4'' ''lifetime'' (table sample_store) = 118"
  "computed_sum sample_clock ''idle'' ''week'' (table sample_store) = 0"
  "computed_sum sample_clock ''gpt-3'' ''month'' (table sample_store) = 0"
  "sum_since ''gpt-4'' 738891 (table sample_store) = 11"
  "sum_since ''gpt-4'' 738885 (table sample_store) = 18"
  by (simp_all add: computed_sum_week computed_sum_month sample_days sum_since_def
      covered_since_def computed_sum_def startDate_def zeroTime_def IsZero_def sample_store_def)

subsection \<open>The answers\<close>

text \<open>
  Claim C5. For the periods \<open>week\<close>, \<open>month\<close> and \<open>lifetime\<close>, and as long as the
  store answers, the aggregate is 404 exactly when the sum it computed is zero, and
  otherwise 200 with that sum. In particular it is 404 when the model has no rows.
\<close>

theorem zero_sum_not_found:
  assumes "healthy s" and "period \<in> {''week'', ''month'', ''lifetime''}"
  shows "fst (getTokenUsageByPeriod clock model period s) =
     (if computed_sum clock model period (table s) = 0
      then respondJSON 404 [(''message'', Str ''No token usage data found for this model'')]
      else respondJSON 200 [(''total_tokens'', Num (computed_sum clock model period (table s)))])
   \<and> (status (fst (getTokenUsageByPeriod clock model period s)) = 404
        \<longleftrightarrow> computed_sum clock model period (table s) = 0)
   \<and> ((\<forall>r \<in> set (table s). col_model r \<noteq> model) \<longrightarrow>
        status (fst (getTokenUsageByPeriod clock model period s)) = 404)"
proof -
  from assms(2) have ne: "startDate (Truncate_day (time_Now clock)) period \<noteq> None"
    by (auto simp: startDate_def)
  have z: "computed_sum clock model period (table s) = 0" if "\<forall>r \<in> set (table s). col_model r \<noteq> model"
  proof -
    from that have "filter (\<lambda>r. col_model r = model \<and> P r) (table s) = []" for P
      by (induction "table s") (auto simp: filter_empty_conv)
    then show ?thesis by (simp add: computed_sum_def split: option.splits)
  qed
  show ?thesis
    using period_response [OF assms(1) ne, of model] z
    by (auto simp: respondJSON_def)
qed

theorem zero_sum_not_found_witness:
  "healthy sample_store
   \<and> ''lifetime'' \<in> {''week'', ''month'', ''lifetime''}
   \<and> ''week'' \<in> {''week'', ''month'', ''lifetime''}
   \<and> ''month'' \<in> {''week'', ''month'', ''lifetime''}
   \<and> fst (getTokenUsageByPeriod sample_clock ''gpt-4'' ''lifetime'' sample_store) =
        respondJSON 200 [(''total_tokens'', Num 118)]
   \<and> fst (getTokenUsageByPeriod sample_clock ''idle'' ''week'' sample_store) =
        respondJSON 404 [(''message'', Str ''No token usage data found for this model'')]
   \<and> fst (getTokenUsageByPeriod sample_clock ''gpt-3'' ''month'' sample_store) =
        respondJSON 404 [(''message'', Str ''No token usage data found for this model'')]"
proof -
  have h: "healthy sample_store" by (simp add: healthy_def sample_store_def)
  from zero_sum_not_found [OF h, of "''lifetime''" sample_clock "''gpt-4''"]
  have 1: "fst (getTokenUsageByPeriod sample_clock ''gpt-4'' ''lifetime'' sample_store) =
        respondJSON 200 [(''total_tokens'', Num 118)]"
    by (simp add: sample_sums)
  from zero_sum_not_found [OF h, of "''week''" sample_clock "''idle''"]
  have 2: "fst (getTokenUsageByPeriod sample_clock ''idle'' ''week'' sample_store) =
        respondJSON 404 [(''message'', Str ''No token usage data found for this model'')]"
    by (simp add: sample_sums)
  from zero_sum_not_found [OF h, of "''month''" sample_clock "''gpt-3''"]
  have 3: "fst (getTokenUsageByPeriod sample_clock ''gpt-3'' ''month'' sample_store) =
        respondJSON 404 [(''message'', Str ''No token usage data found for this model'')]"
    by (simp add: sample_sums)
  from h 1 2 3 show ?thesis by simp
qed

text \<open>
  Claim C7. The \<open>lifetime\<close> aggregate is computed from the sum of \<open>total_tokens\<close> over
  all rows of the model, whatever their dates.
\<close>

theorem lifetime_sum:
  assumes "healthy s"
  shows "computed_sum clock model ''lifetime'' (table s) =
           sum_list (map col_total_tokens (filter (\<lambda>r. col_model r = model) (table s)))
   \<and> fst (getTokenUsageByPeriod clock model ''lifetime'' s) =
     (if sum_list (map col_total_tokens (filter (\<lambda>r. col_model r = model) (table s))) = 0
      then respondJSON 404 [(''message'', Str ''No token usage data found for this model'')]
      else respondJSON 200
        [(''total_tokens'',
          Num (sum_list (map col_total_tokens (filter (\<lambda>r. col_model r = model) (table s)))))])"
proof -
  have c: "computed_sum clock model ''lifetime'' (table s) =
           sum_list (map col_total_tokens (filter (\<lambda>r. col_model r = model) (table s)))"
    by (simp add: computed_sum_def startDate_def IsZero_def zeroTime_def)
  have "startDate (Truncate_day (time_Now clock)) ''lifetime'' \<noteq> None"
    by (simp add: startDate_def)
  from period_response [OF assms this, of model] c show ?thesis by simp
qed

theorem lifetime_sum_witness:
  "healthy sample_store
   \<and> computed_sum sample_clock ''gpt-4'' ''lifetime'' (table sample_store) = 100 + 7 + 11
   \<and> fst (getTokenUsageByPeriod sample_clock ''gpt-4'' ''lifetime'' sample_store) =
        respondJSON 200 [(''total_tokens'', Num 118)]"
proof -
  have h: "healthy sample_store" by (simp add: healthy_def sample_store_def)
  have s: "sum_list (map col_total_tokens
      (filter (\<lambda>r. col_model r = ''gpt-4'') (table sample_store))) = 118"
    by (simp add: sample_store_def)
  from lifetime_sum [OF h, of sample_clock "''gpt-4''"] h show ?thesis
    by (simp add: s)
qed

text \<open>
  Claim C6, as the code has it. The \<open>week\<close> aggregate sums the rows of the model
  dated on or after the most recent Sunday (day 0 is a Monday, so the Sundays are the
  days \<open>d\<close> with \<open>(d + 1) mod 7 = 0\<close>), the \<open>month\<close> aggregate those dated on or after
  the first day of the current calendar month; neither is bounded above by the
  current day, so rows dated after it are included. A row dated before the start of
  the week and on or after the first of the month is left out of \<open>week\<close> and taken
  into \<open>month\<close>.
\<close>

theorem week_and_month_cover:
  assumes "healthy s"
  shows "fst (getTokenUsageByPeriod clock model ''week'' s) =
           aggregate_answer (sum_since model (week_start clock) (table s))
    \<and> fst (getTokenUsageByPeriod clock model ''month'' s) =
           aggregate_answer (sum_since model (month_start clock) (table s))
    \<and> (week_start clock + 1) mod 7 = 0
    \<and> week_start clock \<le> current_day clock \<and> current_day clock < week_start clock + 7
    \<and> month_start clock \<le> current_day clock
    \<and> month_start clock = current_day clock - (Day (time_Now clock) - 1)
    \<and> (\<forall>r. col_model r = model \<and> month_start clock \<le> col_date r \<and> col_date r < week_start clock
          \<longrightarrow> \<not> covered_since model (week_start clock) r
              \<and> covered_since model (month_start clock) r)
    \<and> (\<forall>r. col_model r = model \<and> current_day clock < col_date r
          \<longrightarrow> covered_since model (week_start clock) r
              \<and> covered_since model (month_start clock) r)"
proof -
  have nw: "startDate (Truncate_day (time_Now clock)) ''week'' \<noteq> None"
    and nm: "startDate (Truncate_day (time_Now clock)) ''month'' \<noteq> None"
    by (simp_all add: startDate_def)
  obtain start where st: "startDate (Truncate_day (time_Now clock)) ''month'' = Some start"
    by (simp add: startDate_def)
  note m = start_month(3,4) [OF st]
  have w: "(week_start clock + 1) mod 7 = 0" "week_start clock \<le> current_day clock"
    "current_day clock < week_start clock + 7"
    unfolding week_start_def by presburger+
  have "fst (getTokenUsageByPeriod clock model ''week'' s) =
           aggregate_answer (sum_since model (week_start clock) (table s))"
    using period_response [OF assms nw, of model]
    by (simp add: computed_sum_week aggregate_answer_def)
  moreover have "fst (getTokenUsageByPeriod clock model ''month'' s) =
           aggregate_answer (sum_since model (month_start clock) (table s))"
    using period_response [OF assms nm, of model]
    by (simp add: computed_sum_month aggregate_answer_def)
  ultimately show ?thesis
    using w m by (simp add: covered_since_def)
qed

theorem week_and_month_cover_witness:
  "healthy sample_store
   \<and> current_day sample_clock = 738894
   \<and> week_start sample_clock = 738891
   \<and> month_start sample_clock = 738885
   \<and> fst (getTokenUsageByPeriod sample_clock ''gpt-4'' ''week'' sample_store) =
        respondJSON 200 [(''total_tokens'', Num 11)]
   \<and> fst (getTokenUsageByPeriod sample_clock ''gpt-4'' ''month'' sample_store) =
        respondJSON 200 [(''total_tokens'', Num 18)]
   \<and> \<not> covered_since ''gpt-4'' (week_start sample_clock) (table sample_store ! 1)
   \<and> covered_since ''gpt-4'' (month_start sample_clock) (table sample_store ! 1)"
proof -
  have h: "healthy sample_store" by (simp add: healthy_def sample_store_def)
  have r: "col_model (table sample_store ! 1) = ''gpt-4''"
    "col_date (table sample_store ! 1) = 738887"
    by (simp_all add: sample_store_def)
  note th = week_and_month_cover [OF h, of sample_clock "''gpt-4''"]
  from th have 1: "fst (getTokenUsageByPeriod sample_clock ''gpt-4'' ''week'' sample_store) =
        respondJSON 200 [(''total_tokens'', Num 11)]"
    and 2: "fst (getTokenUsageByPeriod sample_clock ''gpt-4'' ''month'' sample_store) =
        respondJSON 200 [(''total_tokens'', Num 18)]"
    by (simp_all add: sample_days sample_sums aggregate_answer_def)
  from th have "col_model (table sample_store ! 1) = ''gpt-4'' \<and>
      month_start sample_clock \<le> col_date (table sample_store ! 1) \<and>
      col_date (table sample_store ! 1) < week_start sample_clock \<longrightarrow>
      \<not> covered_since ''gpt-4'' (week_start sample_clock) (table sample_store ! 1) \<and>
      covered_since ''gpt-4'' (month_start sample_clock) (table sample_store ! 1)"
    by blast
  with r have 3: "\<not> covered_since ''gpt-4'' (week_start sample_clock) (table sample_store ! 1) \<and>
      covered_since ''gpt-4'' (month_start sample_clock) (table sample_store ! 1)"
    by (simp add: sample_days)
  from h 1 2 3 show ?thesis by (simp add: sample_days)
qed

text \<open>
  Claim C6 as it is worded fails: on 2024-01-10 a row dated 2024-01-20, after the
  current week and inside the current month, is part of the \<open>week\<close> aggregate, whereas
  a sum cut off at the current day would be zero and the answer 404.
\<close>

theorem future_record_in_week:
  "current_day sample_clock = 738894
   \<and> week_start sample_clock = 738891
   \<and> month_start sample_clock = 738885
   \<and> table future_store =
       [\<lparr>col_id = 1, col_date = 738904, col_model = ''gpt-4'', col_total_tokens = 5\<rparr>]
   \<and> fst (getTokenUsageByPeriod sample_clock ''gpt-4'' ''week'' future_store) =
        respondJSON 200 [(''total_tokens'', Num 5)]
   \<and> sum_through_now ''gpt-4'' (week_start sample_clock) (current_day sample_clock)
        (table future_store) = 0
   \<and> fst (getTokenUsageByPeriod sample_clock ''gpt-4'' ''week'' future_store) \<noteq>
        aggregate_answer (sum_through_now ''gpt-4'' (week_start sample_clock)
          (current_day sample_clock) (table future_store))"
proof -
  have h: "healthy future_store" by (simp add: healthy_def future_store_def)
  have nw: "startDate (Truncate_day (time_Now sample_clock)) ''week'' \<noteq> None"
    by (simp add: startDate_def)
  have "computed_sum sample_clock ''gpt-4'' ''week'' (table future_store) = 5"
    by (simp add: computed_sum_week sample_days sum_since_def covered_since_def future_store_def)
  with period_response [OF h nw, of "''gpt-4''"]
  have 1: "fst (getTokenUsageByPeriod sample_clock ''gpt-4'' ''week'' future_store) =
        respondJSON 200 [(''total_tokens'', Num 5)]"
    by simp
  have 2: "sum_through_now ''gpt-4'' (week_start sample_clock) (current_day sample_clock)
        (table future_store) = 0"
    by (simp add: sum_through_now_def sample_days future_store_def)
  from 1 2 show ?thesis
    by (simp add: sample_days aggregate_answer_def respondJSON_def future_store_def)
qed

section \<open>The lookup by date and model\<close>

lemma lookup_found:
  assumes "healthy s" and "parse_date dateStr = Some date"
    and "find (matches (pg_date date) model) (table s) = Some r"
  shows "fst (getTokenUsageByDateAndModel dateStr model s) =
     respondJSON 200 [(''status'', Num 1), (''total_tokens'', Num (col_total_tokens r))]"
  using assms select_total_healthy [OF assms(1), of date model]
  by (cases "select_total date model s") (simp add: getTokenUsageByDateAndModel_def)

text \<open>
  Claim C8. A date segment that does not parse is answered with status 400 and the
  store is left as it was (no statement is issued); \<open>2023-13-40\<close> is such a segment.
  For a date that parses, and as long as the store answers, the answer is status 200:
  with the flag \<open>status\<close> 0 and no \<open>total_tokens\<close> member when no row matches, and with
  the flag 1 and the token count of the matching row otherwise.
\<close>

theorem lookup_by_date_and_model:
  "(parse_date dateStr = None \<longrightarrow>
      getTokenUsageByDateAndModel dateStr model s =
        (respondError 400 ''Invalid date format'' InvalidDate, s))
   \<and> (\<forall>date. parse_date dateStr = Some date \<and> healthy s \<longrightarrow>
        fst (getTokenUsageByDateAndModel dateStr model s) =
          (case find (matches (pg_date date) model) (table s) of
             None \<Rightarrow>
               respondJSON 200
                 [(''message'', Str ''No token usage data found for this date and model''),
                  (''status'', Num 0)]
           | Some r \<Rightarrow>
               respondJSON 200 [(''status'', Num 1), (''total_tokens'', Num (col_total_tokens r))]))
   \<and> parse_date ''2023-13-40'' = None"
proof (intro conjI allI impI)
  show "parse_date ''2023-13-40'' = None"
    by (simp add: parse_date_def parseUint_def isDigit_def digits_val_def)
next
  assume "parse_date dateStr = None"
  then show "getTokenUsageByDateAndModel dateStr model s =
      (respondError 400 ''Invalid date format'' InvalidDate, s)"
    by (simp add: getTokenUsageByDateAndModel_def)
next
  fix date
  assume a: "parse_date dateStr = Some date \<and> healthy s"
  then have "fst (select_total date model s) =
           (case find (matches (pg_date date) model) (table s) of
              None \<Rightarrow> Inl ErrNoRows
            | Some r \<Rightarrow> Inr (col_total_tokens r))"
    by (simp add: select_total_healthy)
  with a show "fst (getTokenUsageByDateAndModel dateStr model s) =
          (case find (matches (pg_date date) model) (table s) of
             None \<Rightarrow>
               respondJSON 200
                 [(''message'', Str ''No token usage data found for this date and model''),
                  (''status'', Num 0)]
           | Some r \<Rightarrow>
               respondJSON 200 [(''status'', Num 1), (''total_tokens'', Num (col_total_tokens r))])"
    by (cases "select_total date model s")
      (auto simp: getTokenUsageByDateAndModel_def split: option.splits sum.splits failure.splits)
qed

theorem lookup_by_date_and_model_witness:
  "parse_date ''2023-13-40'' = None
   \<and> getTokenUsageByDateAndModel ''2023-13-40'' ''gpt-4'' sample_store =
        (respondError 400 ''Invalid date format'' InvalidDate, sample_store)
   \<and> parse_date ''2024-01-08'' = Some \<lparr>sec = 63840268800, offset = 0\<rparr>
   \<and> healthy sample_store
   \<and> fst (getTokenUsageByDateAndModel ''2024-01-08'' ''gpt-4'' sample_store) =
        respondJSON 200 [(''status'', Num 1), (''total_tokens'', Num 11)]
   \<and> fst (getTokenUsageByDateAndModel ''2024-01-08'' ''gpt-3'' sample_store) =
        respondJSON 200
          [(''message'', Str ''No token usage data found for this date and model''),
           (''status'', Num 0)]"
proof -
  have p0: "parse_date ''2023-13-40'' = None"
    by (simp add: parse_defs)
  have p1: "parse_date ''2024-01-08'' = Some \<lparr>sec = 63840268800, offset = 0\<rparr>"
    by (simp add: parse_defs calendar_defs)
  have pg: "pg_date \<lparr>sec = 63840268800, offset = 0\<rparr> = 738892"
    by (simp add: calendar_defs)
  have h: "healthy sample_store" by (simp add: healthy_def sample_store_def)
  have f1: "find (matches 738892 ''gpt-4'') (table sample_store) =
      Some \<lparr>col_id = 3, col_date = 738892, col_model = ''gpt-4'', col_total_tokens = 11\<rparr>"
    and f2: "find (matches 738892 ''gpt-3'') (table sample_store) = None"
    by (simp_all add: sample_store_def matches_def)
  from lookup_by_date_and_model [of "''2023-13-40''" "''gpt-4''" sample_store] p0
  have 1: "getTokenUsageByDateAndModel ''2023-13-40'' ''gpt-4'' sample_store =
        (respondError 400 ''Invalid date format'' InvalidDate, sample_store)"
    by simp
  from lookup_by_date_and_model [of "''2024-01-08''" "''gpt-4''" sample_store] p1 h
  have 2: "fst (getTokenUsageByDateAndModel ''2024-01-08'' ''gpt-4'' sample_store) =
        respondJSON 200 [(''status'', Num 1), (''total_tokens'', Num 11)]"
    by (simp add: pg f1)
  from lookup_by_date_and_model [of "''2024-01-08''" "''gpt-3''" sample_store] p1 h
  have 3: "fst (getTokenUsageByDateAndModel ''2024-01-08'' ''gpt-3'' sample_store) =
        respondJSON 200
          [(''message'', Str ''No token usage data found for this date and model''),
           (''status'', Num 0)]"
    by (simp add: pg f2)
  from p0 p1 h 1 2 3 show ?thesis by simp
qed

section \<open>The recorder\<close>

lemma record_step_cases:
  "table (snd (recordTokenUsage b s)) = table s
   \<or> (\<exists>r. table (snd (recordTokenUsage b s)) = table s @ [r] \<and>
        (\<forall>x \<in> set (table s). (col_date x, col_model x) \<noteq> (col_date r, col_model r)))
   \<or> ((\<exists>u x. Decode b = Inr u \<and> x \<in> set (table s) \<and> matches (pg_date (Date u)) (Model u) x) \<and>
       map (\<lambda>r. (col_date r, col_model r)) (table (snd (recordTokenUsage b s))) =
       map (\<lambda>r. (col_date r, col_model r)) (table s))"
proof (cases "Decode b")
  case (Inl e)
  then show ?thesis by (simp add: recordTokenUsage_def)
next
  case (Inr u)
  obtain res s1 where sel: "select_id (Date u) (Model u) s = (res, s1)"
    by (cases "select_id (Date u) (Model u) s")
  then have t1: "table s1 = table s"
    using select_id_table [of "Date u" "Model u" s] by simp
  show ?thesis
  proof (cases res)
    case (Inl e)
    show ?thesis
    proof (cases "e = ErrNoRows")
      case True
      with Inl sel have nomatch: "\<forall>r \<in> set (table s). \<not> matches (pg_date (Date u)) (Model u) r"
        using select_id_no_rows [of "Date u" "Model u" s] by simp
      obtain res2 s2 where ins: "insert_usage (Date u) (Model u) (TotalTokens u) s1 = (res2, s2)"
        by (cases "insert_usage (Date u) (Model u) (TotalTokens u) s1")
      have s2: "snd (recordTokenUsage b s) = s2"
        using Inr sel Inl True ins by (simp add: recordTokenUsage_def split: sum.splits)
      from insert_usage_table [of "Date u" "Model u" "TotalTokens u" s1] ins t1
      consider "table s2 = table s"
        | "table s2 = table s @ [\<lparr>col_id = serial (snd (db_call s1)), col_date = pg_date (Date u),
              col_model = Model u, col_total_tokens = TotalTokens u\<rparr>]"
        by auto
      then show ?thesis
      proof cases
        case 1
        with s2 show ?thesis by simp
      next
        case 2
        with s2 nomatch show ?thesis
          by (auto simp: matches_def)
      qed
    next
      case False
      with Inr sel Inl t1 show ?thesis
        by (cases e) (simp_all add: recordTokenUsage_def)
    qed
  next
    case (Inr existingID)
    have found: "\<exists>x. x \<in> set (table s) \<and> matches (pg_date (Date u)) (Model u) x"
    proof -
      from sel Inr have "filter (matches (pg_date (Date u)) (Model u)) (table s) \<noteq> []"
        using db_call_table [of s]
        by (cases "db_call s") (auto simp: select_id_def split: bool.splits list.splits)
      then show ?thesis by (auto simp: filter_empty_conv)
    qed
    obtain res2 s2 where upd: "update_total (TotalTokens u) existingID s1 = (res2, s2)"
      by (cases "update_total (TotalTokens u) existingID s1")
    have "snd (recordTokenUsage b s) = s2"
      using \<open>Decode b = Inr u\<close> sel Inr upd by (simp add: recordTokenUsage_def split: sum.splits)
    with update_total_keys [of "TotalTokens u" existingID s1] upd t1 found \<open>Decode b = Inr u\<close>
    show ?thesis by auto
  qed
qed

lemma record_step_unique:
  assumes "unique_keys (table s)"
  shows "unique_keys (table (snd (recordTokenUsage b s)))"
proof -
  let ?k = "\<lambda>r. (col_date r, col_model r)"
  from record_step_cases [of b s]
  consider "table (snd (recordTokenUsage b s)) = table s"
    | r where "table (snd (recordTokenUsage b s)) = table s @ [r]"
        "\<forall>x \<in> set (table s). ?k x \<noteq> ?k r"
    | "map ?k (table (snd (recordTokenUsage b s))) = map ?k (table s)"
    by blast
  then show ?thesis
  proof cases
    case 1
    with assms show ?thesis by simp
  next
    case 2
    from 2(2) have "?k r \<notin> set (map ?k (table s))" by force
    with assms 2(1) show ?thesis by (simp add: unique_keys_def)
  next
    case 3
    with assms show ?thesis by (simp add: unique_keys_def)
  qed
qed

lemma record_existing_keeps_length:
  assumes "Decode b = Inr u" and "x \<in> set (table s)" and "matches (pg_date (Date u)) (Model u) x"
  shows "length (table (snd (recordTokenUsage b s))) = length (table s)"
proof -
  from assms(2,3) have ne: "filter (matches (pg_date (Date u)) (Model u)) (table s) \<noteq> []"
    by (auto simp: filter_empty_conv)
  obtain f s1 where c1: "db_call s = (f, s1)" by (cases "db_call s")
  then have t1: "table s1 = table s" using db_call_table [of s] by simp
  obtain g s2 where c2: "db_call s1 = (g, s2)" by (cases "db_call s1")
  then have t2: "table s2 = table s1" using db_call_table [of s1] by simp
  from ne c1 c2 t1 t2 assms(1) show ?thesis
    by (cases f; cases g; cases "filter (matches (pg_date (Date u)) (Model u)) (table s)")
      (simp_all add: recordTokenUsage_def select_id_def update_total_def)
qed

lemma record_created:
  assumes "healthy s" and "Decode b = Inr u"
    and "\<forall>r \<in> set (table s). \<not> matches (pg_date (Date u)) (Model u) r"
  obtains s' where
    "recordTokenUsage b s =
       (respondJSON 201 [(''message'', Str ''Token usage recorded successfully'')], s')"
    "healthy s'"
    "table s' = table s @ [\<lparr>col_id = serial s, col_date = pg_date (Date u),
        col_model = Model u, col_total_tokens = TotalTokens u\<rparr>]"
proof -
  from assms(3) have em: "filter (matches (pg_date (Date u)) (Model u)) (table s) = []"
    by (auto simp: filter_empty_conv)
  from assms(1) obtain s1 where c1: "db_call s = (False, s1)" "table s1 = table s"
    "serial s1 = serial s" "healthy s1"
    by (rule db_call_healthy)
  from c1(4) obtain s2 where c2: "db_call s1 = (False, s2)" "table s2 = table s1"
    "serial s2 = serial s1" "healthy s2"
    by (rule db_call_healthy)
  let ?row = "\<lparr>col_id = serial s, col_date = pg_date (Date u),
        col_model = Model u, col_total_tokens = TotalTokens u\<rparr>"
  let ?s' = "s2\<lparr>table := table s2 @ [?row], serial := serial s2 + 1\<rparr>"
  have "recordTokenUsage b s =
       (respondJSON 201 [(''message'', Str ''Token usage recorded successfully'')], ?s')"
    using assms(2) em c1 c2 by (simp add: recordTokenUsage_def select_id_def insert_usage_def)
  moreover have "healthy ?s'" using c2(4) by (simp add: healthy_def)
  moreover have "table ?s' = table s @ [?row]" using c1 c2 by simp
  ultimately show ?thesis by (rule that)
qed

lemma record_updated:
  assumes "healthy s" and "Decode b = Inr u"
    and "filter (matches (pg_date (Date u)) (Model u)) (table s) = r # rs"
  obtains s' where
    "recordTokenUsage b s =
       (respondJSON 200 [(''message'', Str ''Token usage updated successfully'')], s')"
    "healthy s'"
    "table s' = map (\<lambda>x. if col_id x = col_id r then x\<lparr>col_total_tokens := TotalTokens u\<rparr> else x)
                  (table s)"
proof -
  from assms(1) obtain s1 where c1: "db_call s = (False, s1)" "table s1 = table s"
    "serial s1 = serial s" "healthy s1"
    by (rule db_call_healthy)
  from c1(4) obtain s2 where c2: "db_call s1 = (False, s2)" "table s2 = table s1"
    "serial s2 = serial s1" "healthy s2"
    by (rule db_call_healthy)
  let ?s' = "s2\<lparr>table := map (\<lambda>x. if col_id x = col_id r
      then x\<lparr>col_total_tokens := TotalTokens u\<rparr> else x) (table s2)\<rparr>"
  have "recordTokenUsage b s =
       (respondJSON 200 [(''message'', Str ''Token usage updated successfully'')], ?s')"
    using assms(2,3) c1 c2 by (simp add: recordTokenUsage_def select_id_def update_total_def)
  moreover have "healthy ?s'" using c2(4) by (simp add: healthy_def)
  moreover have "table ?s' = map (\<lambda>x. if col_id x = col_id r
      then x\<lparr>col_total_tokens := TotalTokens u\<rparr> else x) (table s)" using c1 c2 by simp
  ultimately show ?thesis by (rule that)
qed




lemma strict_timestamp: "parseRFC3339 d = Some t \<Longrightarrow> UnmarshalJSON_Time d = Some t"
  by (simp add: UnmarshalJSON_Time_def)

lemma foldName_tags:
  "foldName ''date'' = ''date''" "foldName ''model'' = ''model''"
  "foldName ''total_tokens'' = ''total_tokens''"
  by (simp_all add: lower_def)

lemma Decode_report:
  "Decode (Some (JObject [(''date'', JString d), (''model'', JString m),
                  (''total_tokens'', JNumber n)])) =
     (case UnmarshalJSON_Time d of
        None \<Rightarrow> Inl InvalidPayload
      | Some t \<Rightarrow>
          if fits_int n then Inr \<lparr>ID = 0, Date = t, Model = m, TotalTokens = n\<rparr>
          else Inl InvalidPayload)"
  by (simp add: Decode_def decode_member_def decode_int_def decode_string_def decode_time_def
      foldName_tags lower_def zeroUsage_def split: option.splits)

text \<open>
  Claim C2. Whatever the reports are, and whichever statements fail, a table with at
  most one row for each pair of date and model still has at most one row for each
  pair after the reports have been served; a report for a pair that has a row leaves
  the number of rows as it was.
\<close>

theorem unique_keys_preserved:
  "(unique_keys (table s) \<longrightarrow> unique_keys (table (record_all bodies s)))
   \<and> (\<forall>u x. Decode b = Inr u \<and> x \<in> set (table s) \<and> matches (pg_date (Date u)) (Model u) x \<longrightarrow>
        length (table (snd (recordTokenUsage b s))) = length (table s))"
proof (intro conjI allI impI)
  assume "unique_keys (table s)"
  then show "unique_keys (table (record_all bodies s))"
  proof (induction bodies arbitrary: s)
    case Nil
    then show ?case by (simp add: record_all_def)
  next
    case (Cons b bodies)
    from Cons.prems have "unique_keys (table (snd (recordTokenUsage b s)))"
      by (rule record_step_unique)
    from Cons.IH [OF this] show ?case by (simp add: record_all_def)
  qed
next
  fix u x
  assume "Decode b = Inr u \<and> x \<in> set (table s) \<and> matches (pg_date (Date u)) (Model u) x"
  then show "length (table (snd (recordTokenUsage b s))) = length (table s)"
    by (auto intro: record_existing_keeps_length)
qed

theorem unique_keys_preserved_witness:
  "unique_keys (table sample_store)
   \<and> unique_keys (table (record_all
        [sample_report ''2024-01-10T00:00:00Z'' 100, None,
         sample_report ''2024-01-10T21:30:00.5-05:00'' 150] sample_store))
   \<and> Decode (sample_report ''2024-01-08T09:00:00Z'' 1) =
       Inr \<lparr>ID = 0, Date = \<lparr>sec = 63840301200, offset = 0\<rparr>, Model = ''gpt-4'', TotalTokens = 1\<rparr>
   \<and> matches 738892 ''gpt-4'' (table sample_store ! 2)
   \<and> length (table (snd (recordTokenUsage (sample_report ''2024-01-08T09:00:00Z'' 1) sample_store)))
       = 5"
proof -
  let ?u = "\<lparr>ID = 0, Date = \<lparr>sec = 63840301200, offset = 0\<rparr>, Model = ''gpt-4'', TotalTokens = 1\<rparr>"
  let ?b = "sample_report ''2024-01-08T09:00:00Z'' 1"
  let ?bs = "[sample_report ''2024-01-10T00:00:00Z'' 100, None,
         sample_report ''2024-01-10T21:30:00.5-05:00'' 150]"
  have u: "unique_keys (table sample_store)"
    by (simp add: unique_keys_def sample_store_def)
  have d: "Decode ?b = Inr ?u"
    by (simp add: sample_report_def Decode_report strict_timestamp [OF parse_sample_monday]
        fits_int_def)
  have pg: "pg_date (Date ?u) = 738892" by (simp add: calendar_defs)
  have m: "matches 738892 ''gpt-4'' (table sample_store ! 2)"
    and i: "table sample_store ! 2 \<in> set (table sample_store)"
    and l: "length (table sample_store) = 5"
    by (simp_all add: sample_store_def matches_def)
  note th = unique_keys_preserved [of sample_store ?bs ?b]
  from th u have 1: "unique_keys (table (record_all ?bs sample_store))" by blast
  from th d m i pg have "length (table (snd (recordTokenUsage ?b sample_store))) =
      length (table sample_store)"
    by (metis TokenUsage.select_convs(3))
  with u 1 d m l show ?thesis by simp
qed

lemma find_update_total:
  "find (matches d m) (map (\<lambda>x. if col_id x = i then x\<lparr>col_total_tokens := n\<rparr> else x) xs) =
   map_option (\<lambda>x. if col_id x = i then x\<lparr>col_total_tokens := n\<rparr> else x) (find (matches d m) xs)"
  by (induction xs) (auto simp: matches_def)

lemma filter_Cons_find: "filter P xs = r # rs \<Longrightarrow> find P xs = Some r"
  using filter_hd_find [of P xs] by simp

lemma record_leaves_match:
  assumes "healthy s" and "Decode b = Inr u"
  obtains s' r rs where "snd (recordTokenUsage b s) = s'" "healthy s'"
    "filter (matches (pg_date (Date u)) (Model u)) (table s') = r # rs"
proof (cases "filter (matches (pg_date (Date u)) (Model u)) (table s)")
  case Nil
  then have "\<forall>r \<in> set (table s). \<not> matches (pg_date (Date u)) (Model u) r"
    by (simp add: filter_empty_conv)
  from record_created [OF assms this] obtain s' where s':
    "recordTokenUsage b s =
       (respondJSON 201 [(''message'', Str ''Token usage recorded successfully'')], s')"
    "healthy s'"
    "table s' = table s @ [\<lparr>col_id = serial s, col_date = pg_date (Date u),
        col_model = Model u, col_total_tokens = TotalTokens u\<rparr>]"
    by blast
  from s'(3) Nil have "filter (matches (pg_date (Date u)) (Model u)) (table s') =
      [\<lparr>col_id = serial s, col_date = pg_date (Date u),
        col_model = Model u, col_total_tokens = TotalTokens u\<rparr>]"
    by (simp add: matches_def)
  with s'(1,2) show ?thesis by (intro that [of s']) simp_all
next
  case (Cons r rs)
  from record_updated [OF assms Cons] obtain s' where s':
    "recordTokenUsage b s =
       (respondJSON 200 [(''message'', Str ''Token usage updated successfully'')], s')"
    "healthy s'"
    "table s' = map (\<lambda>x. if col_id x = col_id r then x\<lparr>col_total_tokens := TotalTokens u\<rparr> else x)
                  (table s)"
    by blast
  let ?upd = "\<lambda>x. if col_id x = col_id r then x\<lparr>col_total_tokens := TotalTokens u\<rparr> else x"
  have "filter (matches (pg_date (Date u)) (Model u)) (map ?upd xs) =
        map ?upd (filter (matches (pg_date (Date u)) (Model u)) xs)" for xs
    by (induction xs) (auto simp: matches_def)
  with s'(3) Cons have "filter (matches (pg_date (Date u)) (Model u)) (table s') = ?upd r # map ?upd rs"
    by simp
  with s'(1,2) show ?thesis by (intro that [of s']) simp_all
qed

text \<open>
  Claim C1. Two reports for the same date and model, served one after the other while
  the store answers: the second is answered 200, and the lookup for the pair then
  returns the token count of the second report, not a sum. When the pair has no row
  before the first report, the first report is answered 201.
\<close>

theorem last_write_wins:
  assumes "healthy s"
    and "Decode b1 = Inr u1" and "Decode b2 = Inr u2"
    and "pg_date (Date u2) = pg_date (Date u1)" and "Model u2 = Model u1"
    and "parse_date dateStr = Some date" and "pg_date date = pg_date (Date u1)"
  shows "fst (recordTokenUsage b2 (snd (recordTokenUsage b1 s))) =
           respondJSON 200 [(''message'', Str ''Token usage updated successfully'')]
    \<and> fst (getTokenUsageByDateAndModel dateStr (Model u1)
              (snd (recordTokenUsage b2 (snd (recordTokenUsage b1 s))))) =
           respondJSON 200 [(''status'', Num 1), (''total_tokens'', Num (TotalTokens u2))]
    \<and> ((\<forall>r \<in> set (table s). \<not> matches (pg_date (Date u1)) (Model u1) r) \<longrightarrow>
         fst (recordTokenUsage b1 s) =
           respondJSON 201 [(''message'', Str ''Token usage recorded successfully'')])"
proof -
  let ?d = "pg_date (Date u1)" and ?m = "Model u1"
  from assms(1,2) obtain s1 r rs where s1: "snd (recordTokenUsage b1 s) = s1" "healthy s1"
    "filter (matches ?d ?m) (table s1) = r # rs"
    by (rule record_leaves_match)
  from s1(3) assms(4,5)
  have f1: "filter (matches (pg_date (Date u2)) (Model u2)) (table s1) = r # rs"
    by simp
  from record_updated [OF s1(2) assms(3) f1] obtain s2 where s2:
    "recordTokenUsage b2 s1 =
       (respondJSON 200 [(''message'', Str ''Token usage updated successfully'')], s2)"
    "healthy s2"
    "table s2 = map (\<lambda>x. if col_id x = col_id r then x\<lparr>col_total_tokens := TotalTokens u2\<rparr> else x)
                  (table s1)"
    by blast
  from s1(3) have "find (matches ?d ?m) (table s1) = Some r"
    by (rule filter_Cons_find)
  then have "find (matches ?d ?m) (table s2) = Some (r\<lparr>col_total_tokens := TotalTokens u2\<rparr>)"
    unfolding s2(3) find_update_total by simp
  with lookup_found [OF s2(2) assms(6), of ?m] assms(7)
  have 3: "fst (getTokenUsageByDateAndModel dateStr ?m s2) =
     respondJSON 200 [(''status'', Num 1), (''total_tokens'', Num (TotalTokens u2))]"
    by simp
  have 1: "fst (recordTokenUsage b1 s) =
           respondJSON 201 [(''message'', Str ''Token usage recorded successfully'')]"
    if "\<forall>r \<in> set (table s). \<not> matches ?d ?m r"
    using record_created [OF assms(1,2) that] by (metis fst_conv)
  from s1(1) s2(1) 3 1 show ?thesis by simp
qed

theorem last_write_wins_witness:
  "healthy sample_store
   \<and> Decode (sample_report ''2024-01-10T00:00:00Z'' 100) =
       Inr \<lparr>ID = 0, Date = \<lparr>sec = 63840441600, offset = 0\<rparr>, Model = ''gpt-4'', TotalTokens = 100\<rparr>
   \<and> Decode (sample_report ''2024-01-10T21:30:00.5-05:00'' 150) =
       Inr \<lparr>ID = 0, Date = \<lparr>sec = 63840537000, offset = - 18000\<rparr>, Model = ''gpt-4'',
            TotalTokens = 150\<rparr>
   \<and> pg_date \<lparr>sec = 63840537000, offset = - 18000\<rparr> = pg_date \<lparr>sec = 63840441600, offset = 0\<rparr>
   \<and> filter (matches 738894 ''gpt-4'') (table sample_store) = []
   \<and> parse_date ''2024-01-10'' = Some \<lparr>sec = 63840441600, offset = 0\<rparr>
   \<and> fst (recordTokenUsage (sample_report ''2024-01-10T00:00:00Z'' 100) sample_store) =
           respondJSON 201 [(''message'', Str ''Token usage recorded successfully'')]
   \<and> fst (recordTokenUsage (sample_report ''2024-01-10T21:30:00.5-05:00'' 150)
            (snd (recordTokenUsage (sample_report ''2024-01-10T00:00:00Z'' 100) sample_store))) =
           respondJSON 200 [(''message'', Str ''Token usage updated successfully'')]
   \<and> fst (getTokenUsageByDateAndModel ''2024-01-10'' ''gpt-4''
            (snd (recordTokenUsage (sample_report ''2024-01-10T21:30:00.5-05:00'' 150)
              (snd (recordTokenUsage (sample_report ''2024-01-10T00:00:00Z'' 100) sample_store))))) =
           respondJSON 200 [(''status'', Num 1), (''total_tokens'', Num 150)]"
proof -
  let ?u1 = "\<lparr>ID = 0, Date = \<lparr>sec = 63840441600, offset = 0\<rparr>, Model = ''gpt-4'',
              TotalTokens = 100\<rparr>"
  let ?u2 = "\<lparr>ID = 0, Date = \<lparr>sec = 63840537000, offset = - 18000\<rparr>, Model = ''gpt-4'',
              TotalTokens = 150\<rparr>"
  have h: "healthy sample_store"
    by (simp add: healthy_def sample_store_def)
  have d1: "Decode (sample_report ''2024-01-10T00:00:00Z'' 100) = Inr ?u1"
    by (simp add: sample_report_def Decode_report strict_timestamp [OF parse_sample_timestamp]
        fits_int_def)
  have d2: "Decode (sample_report ''2024-01-10T21:30:00.5-05:00'' 150) = Inr ?u2"
    by (simp add: sample_report_def Decode_report strict_timestamp [OF parse_sample_evening]
        fits_int_def)
  have pg1: "pg_date \<lparr>sec = 63840441600, offset = 0\<rparr> = 738894"
    and pg2: "pg_date \<lparr>sec = 63840537000, offset = - 18000\<rparr> = 738894"
    by (simp_all add: calendar_defs)
  have em: "filter (matches 738894 ''gpt-4'') (table sample_store) = []"
    by (simp add: sample_store_def matches_def)
  then have nm: "\<forall>r \<in> set (table sample_store). \<not> matches (pg_date (Date ?u1)) (Model ?u1) r"
    by (simp add: filter_empty_conv pg1)
  have "fst (recordTokenUsage (sample_report ''2024-01-10T21:30:00.5-05:00'' 150)
            (snd (recordTokenUsage (sample_report ''2024-01-10T00:00:00Z'' 100) sample_store))) =
           respondJSON 200 [(''message'', Str ''Token usage updated successfully'')]
   \<and> fst (getTokenUsageByDateAndModel ''2024-01-10'' (Model ?u1)
            (snd (recordTokenUsage (sample_report ''2024-01-10T21:30:00.5-05:00'' 150)
              (snd (recordTokenUsage (sample_report ''2024-01-10T00:00:00Z'' 100) sample_store))))) =
           respondJSON 200 [(''status'', Num 1), (''total_tokens'', Num (TotalTokens ?u2))]
   \<and> ((\<forall>r \<in> set (table sample_store). \<not> matches (pg_date (Date ?u1)) (Model ?u1) r) \<longrightarrow>
         fst (recordTokenUsage (sample_report ''2024-01-10T00:00:00Z'' 100) sample_store) =
           respondJSON 201 [(''message'', Str ''Token usage recorded successfully'')])"
    by (rule last_write_wins [OF h d1 d2 _ _ parse_sample_date]) (simp_all add: pg1 pg2)
  with nm have "fst (recordTokenUsage (sample_report ''2024-01-10T21:30:00.5-05:00'' 150)
            (snd (recordTokenUsage (sample_report ''2024-01-10T00:00:00Z'' 100) sample_store))) =
           respondJSON 200 [(''message'', Str ''Token usage updated successfully'')]"
    and "fst (getTokenUsageByDateAndModel ''2024-01-10'' ''gpt-4''
            (snd (recordTokenUsage (sample_report ''2024-01-10T21:30:00.5-05:00'' 150)
              (snd (recordTokenUsage (sample_report ''2024-01-10T00:00:00Z'' 100) sample_store))))) =
           respondJSON 200 [(''status'', Num 1), (''total_tokens'', Num 150)]"
    and "fst (recordTokenUsage (sample_report ''2024-01-10T00:00:00Z'' 100) sample_store) =
           respondJSON 201 [(''message'', Str ''Token usage recorded successfully'')]"
    by simp_all
  with h d1 d2 pg1 pg2 em show ?thesis
    by (simp add: parse_sample_date)
qed




section \<open>Route dispatch\<close>

lemma split_on_no_sep: "c \<notin> set w \<Longrightarrow> split_on c w = [w]"
  by (induction w) auto

lemma split_on_sep: "c \<notin> set w \<Longrightarrow> split_on c (w @ c # rest) = w # split_on c rest"
  by (induction w) auto

lemma path_segments_two:
  assumes "segment a" and "segment b"
  shows "path_segments (''/token_usage/'' @ a @ ''/'' @ b) = Some [''token_usage'', a, b]"
proof -
  have "split_on (CHR ''/'') (''token_usage'' @ CHR ''/'' # (a @ CHR ''/'' # b)) =
        ''token_usage'' # split_on (CHR ''/'') (a @ CHR ''/'' # b)"
    by (rule split_on_sep) simp
  also have "split_on (CHR ''/'') (a @ CHR ''/'' # b) = a # split_on (CHR ''/'') b"
    using assms(1) by (intro split_on_sep) (simp add: segment_def)
  also have "split_on (CHR ''/'') b = [b]"
    using assms(2) by (intro split_on_no_sep) (simp add: segment_def)
  finally have sp: "split_on (CHR ''/'') (''token_usage'' @ CHR ''/'' # (a @ CHR ''/'' # b)) =
        [''token_usage'', a, b]" .
  have eq: "''/token_usage/'' @ a @ ''/'' @ b =
        CHR ''/'' # (''token_usage'' @ CHR ''/'' # (a @ CHR ''/'' # b))"
    by simp
  have "path_segments (CHR ''/'' # xs) = Some (split_on (CHR ''/'') xs)" for xs
    by (simp add: path_segments_def)
  then show ?thesis
    unfolding eq sp [symmetric] by blast
qed

lemma match_template_Nil:
  "match_template [] segs = (if segs = [] then Some [] else None)"
  by (cases segs) auto

lemma match_template_Lit:
  "match_template (Lit l # ps) segs =
     (case segs of [] \<Rightarrow> None | x # xs \<Rightarrow> if x = l then match_template ps xs else None)"
  by (cases segs) auto

lemma match_template_Var:
  "match_template (Var v # ps) segs =
     (case segs of [] \<Rightarrow> None
      | x # xs \<Rightarrow> if x = [] then None else map_option (\<lambda>vars. (v, x) # vars) (match_template ps xs))"
  by (cases segs) auto

lemmas match_template_unfold = match_template_Nil match_template_Lit match_template_Var


lemma split_two:
  assumes "segment a" and "segment b"
  shows "split_on (CHR ''/'') (''token_usage'' @ CHR ''/'' # (a @ CHR ''/'' # b)) =
        [''token_usage'', a, b]"
proof -
  have "split_on (CHR ''/'') (''token_usage'' @ CHR ''/'' # (a @ CHR ''/'' # b)) =
        ''token_usage'' # split_on (CHR ''/'') (a @ CHR ''/'' # b)"
    by (rule split_on_sep) simp
  also have "split_on (CHR ''/'') (a @ CHR ''/'' # b) = a # split_on (CHR ''/'') b"
    using assms(1) by (intro split_on_sep) (simp add: segment_def)
  also have "split_on (CHR ''/'') b = [b]"
    using assms(2) by (intro split_on_no_sep) (simp add: segment_def)
  finally show ?thesis .
qed

lemma path_shape:
  "''/token_usage/'' @ a @ ''/'' @ b =
     CHR ''/'' # (''token_usage'' @ CHR ''/'' # (a @ CHR ''/'' # b))"
  by simp

lemma cleanPath_two:
  assumes "segment a" and "segment b" and "\<not> dot_segment a" and "\<not> dot_segment b"
  shows "cleanPath (''/token_usage/'' @ a @ ''/'' @ b) = ''/token_usage/'' @ a @ ''/'' @ b"
proof -
  let ?p = "CHR ''/'' # (''token_usage'' @ CHR ''/'' # (a @ CHR ''/'' # b))"
  from assms have ne: "a \<noteq> []" "b \<noteq> []" "a \<noteq> ''.''" "a \<noteq> ''..''" "b \<noteq> ''.''" "b \<noteq> ''..''"
    by (auto simp: segment_def dot_segment_def)
  have ce: "clean_elements [''token_usage'', a, b] [] = [''token_usage'', a, b]"
    using ne by simp
  have pc: "path_Clean ?p = ?p"
    unfolding path_Clean_def list.sel split_two [OF assms(1,2)] ce by simp
  from assms(2) ne(2) have "last b \<noteq> CHR ''/''"
    by (metis last_in_set segment_def)
  with ne(2) have lp: "last ?p \<noteq> CHR ''/''" by simp
  have "cleanPath ?p = ?p"
    unfolding cleanPath_def Let_def using pc lp by (simp del: append.simps)
  then show ?thesis unfolding path_shape .
qed


lemma cleanPath_dot:
  assumes "segment a" and "segment b" and "dot_segment a \<or> dot_segment b"
  shows "length (cleanPath (''/token_usage/'' @ a @ ''/'' @ b)) <
         length (''/token_usage/'' @ a @ ''/'' @ b)"
proof -
  let ?p = "CHR ''/'' # (''token_usage'' @ CHR ''/'' # (a @ CHR ''/'' # b))"
  from assms have ne: "a \<noteq> []" "b \<noteq> []" by (auto simp: segment_def)
  from assms(2) ne(2) have "last b \<noteq> CHR ''/''"
    by (metis last_in_set segment_def)
  with ne(2) have lp: "last ?p \<noteq> CHR ''/''" by simp
  have cp: "cleanPath ?p = path_Clean ?p"
    unfolding cleanPath_def Let_def using lp by (simp del: append.simps)
  have pc: "path_Clean ?p =
      (case clean_elements [''token_usage'', a, b] [] of
        [] \<Rightarrow> ''/''
      | elements \<Rightarrow> concat (map (\<lambda>x. CHR ''/'' # x) elements))"
    unfolding path_Clean_def list.sel split_two [OF assms(1,2)] ..
  have "length (path_Clean ?p) < length ?p"
    unfolding pc using assms(3) ne
    by (auto simp: dot_segment_def)
  then show ?thesis unfolding path_shape cp .
qed

text \<open>
  Claim C4, as the code has it. A \<open>GET\<close> request for a path of the shape
  \<open>/token_usage/a/b\<close>, where neither \<open>a\<close> nor \<open>b\<close> is \<open>.\<close> or \<open>..\<close>, is served by the
  lookup by date and model, with \<open>a\<close> as the date and \<open>b\<close> as the model; when \<open>a\<close> or
  \<open>b\<close> is \<open>.\<close> or \<open>..\<close> the router answers with a redirect to the cleaned path and
  tries no route; and the period aggregate is served for no request at all.
\<close>

theorem period_route_shadowed:
  "(\<forall>a b. segment a \<and> segment b \<and> \<not> dot_segment a \<and> \<not> dot_segment b \<longrightarrow>
      dispatch ''GET'' (''/token_usage/'' @ a @ ''/'' @ b) =
        Routed H_getTokenUsageByDateAndModel [(''date'', a), (''model'', b)])
   \<and> (\<forall>meth a b. segment a \<and> segment b \<and> (dot_segment a \<or> dot_segment b) \<longrightarrow>
        dispatch meth (''/token_usage/'' @ a @ ''/'' @ b) =
          Redirected (cleanPath (''/token_usage/'' @ a @ ''/'' @ b)))
   \<and> (\<forall>meth path vars. dispatch meth path \<noteq> Routed H_getTokenUsageByPeriod vars)"
proof (intro conjI allI impI)
  fix a b
  assume ab: "segment a \<and> segment b \<and> \<not> dot_segment a \<and> \<not> dot_segment b"
  then have ps: "path_segments (''/token_usage/'' @ a @ ''/'' @ b) = Some [''token_usage'', a, b]"
    by (intro path_segments_two) simp_all
  from ab have cl: "cleanPath (''/token_usage/'' @ a @ ''/'' @ b) = ''/token_usage/'' @ a @ ''/'' @ b"
    by (intro cleanPath_two) simp_all
  from ab have "a \<noteq> []" and "b \<noteq> []"
    by (simp_all add: segment_def)
  then show "dispatch ''GET'' (''/token_usage/'' @ a @ ''/'' @ b) =
        Routed H_getTokenUsageByDateAndModel [(''date'', a), (''model'', b)]"
    unfolding dispatch_def cl ps by (simp add: routes_def)
next
  fix meth a b
  assume ab: "segment a \<and> segment b \<and> (dot_segment a \<or> dot_segment b)"
  then have "length (cleanPath (''/token_usage/'' @ a @ ''/'' @ b)) <
         length (''/token_usage/'' @ a @ ''/'' @ b)"
    by (intro cleanPath_dot) simp_all
  then have "cleanPath (''/token_usage/'' @ a @ ''/'' @ b) \<noteq> ''/token_usage/'' @ a @ ''/'' @ b"
    by (metis less_irrefl)
  then show "dispatch meth (''/token_usage/'' @ a @ ''/'' @ b) =
          Redirected (cleanPath (''/token_usage/'' @ a @ ''/'' @ b))"
    unfolding dispatch_def by (simp only: if_True simp_thms)
next
  fix meth path vars
  show "dispatch meth path \<noteq> Routed H_getTokenUsageByPeriod vars"
    by (simp add: dispatch_def routes_def match_template_unfold
        split: option.splits list.splits)
qed

theorem period_route_shadowed_witness:
  "segment ''gpt-4'' \<and> segment ''week'' \<and> \<not> dot_segment ''gpt-4'' \<and> \<not> dot_segment ''week''
   \<and> dispatch ''GET'' ''/token_usage/gpt-4/week'' =
       Routed H_getTokenUsageByDateAndModel [(''date'', ''gpt-4''), (''model'', ''week'')]
   \<and> segment ''.'' \<and> dot_segment ''.''
   \<and> dispatch ''GET'' ''/token_usage/./week'' = Redirected ''/token_usage/week''"
proof -
  have s: "segment ''gpt-4'' \<and> segment ''week'' \<and> \<not> dot_segment ''gpt-4'' \<and> \<not> dot_segment ''week''"
    and d: "segment ''.'' \<and> segment ''week'' \<and> (dot_segment ''.'' \<or> dot_segment ''week'')"
    by (simp_all add: segment_def dot_segment_def)
  have c: "cleanPath ''/token_usage/./week'' = ''/token_usage/week''"
    by (simp add: cleanPath_def path_Clean_def)
  note th = period_route_shadowed
  from th s have 1: "dispatch ''GET'' (''/token_usage/'' @ ''gpt-4'' @ ''/'' @ ''week'') =
        Routed H_getTokenUsageByDateAndModel [(''date'', ''gpt-4''), (''model'', ''week'')]"
    by blast
  from th d have 2: "dispatch ''GET'' (''/token_usage/'' @ ''.'' @ ''/'' @ ''week'') =
        Redirected (cleanPath (''/token_usage/'' @ ''.'' @ ''/'' @ ''week''))"
    by blast
  from 1 2 s d c show ?thesis by simp
qed

text \<open>
  Claim C4 as it is worded fails: the path \<open>/token_usage/../gpt-4\<close> has the two-segment
  shape, and a \<open>GET\<close> request for it is redirected to \<open>/gpt-4\<close> instead of being
  served by the lookup.
\<close>

theorem dot_segment_redirected:
  "segment ''..'' \<and> segment ''gpt-4''
   \<and> dispatch ''GET'' ''/token_usage/../gpt-4'' = Redirected ''/gpt-4''
   \<and> dispatch ''GET'' ''/token_usage/../gpt-4'' \<noteq>
       Routed H_getTokenUsageByDateAndModel [(''date'', ''..''), (''model'', ''gpt-4'')]"
  by (simp add: segment_def dispatch_def cleanPath_def path_Clean_def)

end
